theory Spec2Isabelle
  imports Complex_Main "HOL-Library.Sublist" "HOL-Library.Char_ord"
    "HOL-Library.List_Lexorder" "HOL-Library.Product_Lexorder"
begin

section \<open>Strings as the memory store sees them\<close>

text \<open>
  The store of \<^verbatim>\<open>src/index.ts\<close> handles JavaScript strings. A \<^typ>\<open>char\<close> stands for
  one UTF-16 code unit in the range U+0000 .. U+00FF, so a \<^typ>\<open>string\<close> is a JavaScript
  string over that range; \<open>length\<close> is the \<^verbatim>\<open>.length\<close> of the source. The order on strings
  (\<open>List_Lexorder\<close> over \<open>Char_ord\<close>) is the order in which SQLite's BINARY collation compares
  two TEXT values of that range.
\<close>

definition code_unit :: "char \<Rightarrow> nat" where
  "code_unit c = of_char c"

definition is_upper_ascii :: "char \<Rightarrow> bool" where
  "is_upper_ascii c = (65 \<le> code_unit c \<and> code_unit c \<le> 90)"

definition is_upper_latin1 :: "char \<Rightarrow> bool" where
  "is_upper_latin1 c = (192 \<le> code_unit c \<and> code_unit c \<le> 222 \<and> code_unit c \<noteq> 215)"

text \<open>\<^verbatim>\<open>String.prototype.toLowerCase\<close>, one code unit at a time.\<close>

definition toLowerCase_unit :: "char \<Rightarrow> char" where
  "toLowerCase_unit c =
     (if is_upper_ascii c \<or> is_upper_latin1 c then char_of (code_unit c + 32) else c)"

definition toLowerCase :: "string \<Rightarrow> string" where
  "toLowerCase s = map toLowerCase_unit s"

text \<open>The class \<^verbatim>\<open>\s\<close> of a JavaScript regular expression: TAB, LF, VT, FF, CR, SP, NBSP.\<close>

definition is_whitespace :: "char \<Rightarrow> bool" where
  "is_whitespace c = (code_unit c \<in> {9, 10, 11, 12, 13, 32, 160})"

text \<open>
  \<^verbatim>\<open>s.split(/\s+/)\<close>: the pieces between the maximal runs of whitespace. A run at the
  start or at the end of the string leaves an empty piece there, and the empty string
  splits into one empty piece.
\<close>

function split_ws_from :: "string \<Rightarrow> string \<Rightarrow> string list" where
  "split_ws_from cur [] = [cur]"
| "split_ws_from cur (c # cs) =
     (if is_whitespace c then cur # split_ws_from [] (dropWhile is_whitespace cs)
      else split_ws_from (cur @ [c]) cs)"
  by pat_completeness auto
termination
  by (relation "measure (\<lambda>(cur, s). length s)")
     (auto simp: length_dropWhile_le less_Suc_eq_le)

definition split_ws :: "string \<Rightarrow> string list" where
  "split_ws s = split_ws_from [] s"

subsection \<open>The LIKE operator of SQLite\<close>

text \<open>
  \<open>like_match p s\<close> is \<^verbatim>\<open>s LIKE p\<close> with no ESCAPE clause: in the pattern a percent sign
  matches any run of characters, an underscore matches any one character, and every other
  character matches itself, upper and lower case ASCII letters being the same.
\<close>

definition sqlite_tolower :: "char \<Rightarrow> char" where
  "sqlite_tolower c = (if is_upper_ascii c then char_of (code_unit c + 32) else c)"

fun like_match :: "string \<Rightarrow> string \<Rightarrow> bool" where
  "like_match [] s = (s = [])"
| "like_match (p # ps) [] = (p = CHR ''%'' \<and> like_match ps [])"
| "like_match (p # ps) (c # cs) =
     (if p = CHR ''%'' then like_match ps (c # cs) \<or> like_match (p # ps) cs
      else if p = CHR ''_'' then like_match ps cs
      else sqlite_tolower p = sqlite_tolower c \<and> like_match ps cs)"

subsection \<open>Regular expressions\<close>

text \<open>
  A noise pattern is the source text of a regular expression, compiled by
  \<^verbatim>\<open>new RegExp(p, 'i')\<close>. The model holds the pattern parsed: literal characters, the class
  \<^verbatim>\<open>\s\<close>, the assertions \<^verbatim>\<open>^\<close> and \<^verbatim>\<open>$\<close>, sequence, alternative and star.
\<close>

datatype regex =
    Lit char
  | Space
  | Bol
  | Eol
  | Eps
  | Seq regex regex
  | Alt regex regex
  | Star regex

text \<open>
  The flag \<^verbatim>\<open>i\<close> compares two code units by their upper case (Canonicalize of
  ECMAScript, without the flag \<^verbatim>\<open>u\<close>).
\<close>

definition canonicalize :: "char \<Rightarrow> char" where
  "canonicalize c =
     (if (97 \<le> code_unit c \<and> code_unit c \<le> 122)
         \<or> (224 \<le> code_unit c \<and> code_unit c \<le> 254 \<and> code_unit c \<noteq> 247)
      then char_of (code_unit c - 32) else c)"

text \<open>
  \<open>star_from f n ps\<close> closes the positions \<open>ps\<close> under at most \<open>n\<close> more rounds of the
  step \<open>f\<close>. \<open>ends r s i\<close> lists the positions of \<open>s\<close> at which a match of \<open>r\<close> that
  starts at position \<open>i\<close> can end; a star needs no more rounds than \<open>s\<close> has positions.
\<close>

primrec star_from :: "(nat \<Rightarrow> nat list) \<Rightarrow> nat \<Rightarrow> nat list \<Rightarrow> nat list" where
  "star_from f 0 ps = ps"
| "star_from f (Suc n) ps = star_from f n (remdups (ps @ concat (map f ps)))"

primrec ends :: "regex \<Rightarrow> string \<Rightarrow> nat \<Rightarrow> nat list" where
  "ends (Lit c) s i =
     (if i < length s \<and> canonicalize (s ! i) = canonicalize c then [Suc i] else [])"
| "ends Space s i = (if i < length s \<and> is_whitespace (s ! i) then [Suc i] else [])"
| "ends Bol s i = (if i = 0 then [i] else [])"
| "ends Eol s i = (if i = length s then [i] else [])"
| "ends Eps s i = [i]"
| "ends (Seq a b) s i = concat (map (ends b s) (ends a s i))"
| "ends (Alt a b) s i = ends a s i @ ends b s i"
| "ends (Star a) s i = star_from (ends a s) (length s) [i]"

text \<open>\<^verbatim>\<open>re.test(s)\<close>: the pattern matches somewhere in \<open>s\<close>.\<close>

definition regex_test :: "regex \<Rightarrow> string \<Rightarrow> bool" where
  "regex_test re s = list_ex (\<lambda>i. ends re s i \<noteq> []) [0 ..< Suc (length s)]"

text \<open>The pattern that a plain word stands for, and a choice between patterns.\<close>

definition word :: "string \<Rightarrow> regex" where
  "word w = foldr (\<lambda>c r. Seq (Lit c) r) w Eps"

fun alternatives :: "regex list \<Rightarrow> regex" where
  "alternatives [] = Eps"
| "alternatives [r] = r"
| "alternatives (r # rs) = Alt r (alternatives rs)"

section \<open>The data model\<close>

datatype MemoryCategory = Preference | Fact | Decision | Entity | Conversation | Other

text \<open>
  The interface \<^verbatim>\<open>Memory\<close>. The fields \<^verbatim>\<open>id\<close> and \<^verbatim>\<open>text\<close> are \<open>mid\<close> and \<open>mtext\<close>
  here. The metadata object is held as its JSON text.
\<close>

record Memory =
  mid :: string
  mtext :: string
  category :: MemoryCategory
  importance :: real
  createdAt :: string
  updatedAt :: string
  sessionKey :: "string option"
  metadata :: "string option"

record MemoryStoreParams =
  s_text :: string
  s_category :: "MemoryCategory option"
  s_importance :: "real option"
  s_sessionKey :: "string option"
  s_metadata :: "string option"

text \<open>
  A limit is a JavaScript number that the source does not check; the model covers the
  integers, negative ones too, that SQLite takes as a 64-bit \<^verbatim>\<open>LIMIT\<close>.
\<close>

record MemoryRecallParams =
  query :: string
  limit :: "int option"
  r_category :: "MemoryCategory option"
  dateFrom :: "string option"
  dateTo :: "string option"
  filterNoise :: "bool option"

record MemoryForgetParams =
  memoryId :: "string option"
  f_query :: "string option"

text \<open>
  The configuration. The path of the database file is left out: the file itself is the
  field \<open>disk\<close> of the plugin below.
\<close>

record PluginConfig =
  c_maxMemories :: "nat option"
  c_defaultImportance :: "real option"
  c_noisePatterns :: "regex list option"
  c_autoSaveInterval :: "nat option"

record Config =
  maxMemories :: nat
  defaultImportance :: real
  noisePatterns :: "regex list"
  autoSaveInterval :: nat

text \<open>
  The two default noise patterns:
  \<^verbatim>\<open>^(ok|okay|yes|no|thanks|thank you|sure|got it|cool|nice|great)$\<close> and \<^verbatim>\<open>^\s*$\<close>.
\<close>

definition acknowledgements :: "string list" where
  "acknowledgements =
     [''ok'', ''okay'', ''yes'', ''no'', ''thanks'', ''thank you'', ''sure'', ''got it'',
      ''cool'', ''nice'', ''great'']"

definition DEFAULT_CONFIG :: Config where
  "DEFAULT_CONFIG =
     \<lparr>maxMemories = 10000,
      defaultImportance = 0.7,
      noisePatterns =
        [Seq Bol (Seq (alternatives (map word acknowledgements)) Eol),
         Seq Bol (Seq (Star Space) Eol)],
      autoSaveInterval = 0\<rparr>"

text \<open>One row of the table \<^verbatim>\<open>memories\<close>, column by column.\<close>

record row =
  row_id :: string
  row_text :: string
  text_lower :: string
  row_category :: MemoryCategory
  row_importance :: real
  created_at :: string
  updated_at :: string
  session_key :: "string option"
  row_metadata :: "string option"

text \<open>
  The plugin object: the open database (the rows of the table, \<open>None\<close> while there is no
  database), the configuration and the two flags; with it the file system as the plugin
  sees it: the database file (\<open>None\<close> while the file does not exist) and whether
  \<^verbatim>\<open>writeFileSync\<close> on it succeeds. Reading the file and creating its directory never
  fail in the model.
\<close>

record plugin =
  db :: "row list option"
  config :: Config
  dirty :: bool
  initialized :: bool
  disk :: "row list option"
  writable :: bool

datatype error = NotInitialized | ConstraintFailed | StorageIOFailure

section \<open>The plugin\<close>

definition constructor :: "PluginConfig \<Rightarrow> row list option \<Rightarrow> bool \<Rightarrow> plugin" where
  "constructor c file w =
     \<lparr>db = None,
      config =
        \<lparr>maxMemories = (case c_maxMemories c of None \<Rightarrow> maxMemories DEFAULT_CONFIG | Some n \<Rightarrow> n),
         defaultImportance =
           (case c_defaultImportance c of None \<Rightarrow> defaultImportance DEFAULT_CONFIG | Some x \<Rightarrow> x),
         noisePatterns =
           (case c_noisePatterns c of None \<Rightarrow> noisePatterns DEFAULT_CONFIG | Some ps \<Rightarrow> ps),
         autoSaveInterval =
           (case c_autoSaveInterval c of None \<Rightarrow> autoSaveInterval DEFAULT_CONFIG | Some n \<Rightarrow> n)\<rparr>,
      dirty = False,
      initialized = False,
      disk = file,
      writable = w\<rparr>"

definition save :: "plugin \<Rightarrow> (error + unit) \<times> plugin" where
  "save s =
     (case db s of
        None \<Rightarrow> (Inr (), s)
      | Some t \<Rightarrow>
          if writable s then (Inr (), s\<lparr>dirty := False, disk := Some t\<rparr>)
          else (Inl StorageIOFailure, s))"

definition saveIfDirty :: "plugin \<Rightarrow> (error + unit) \<times> plugin" where
  "saveIfDirty s = (if dirty s then save s else (Inr (), s))"

definition markDirty :: "plugin \<Rightarrow> (error + unit) \<times> plugin" where
  "markDirty s =
     (let s1 = s\<lparr>dirty := True\<rparr>
      in if autoSaveInterval (config s1) = 0 then save s1 else (Inr (), s1))"

text \<open>
  \<^verbatim>\<open>init\<close>: the image of the file, or an empty database, becomes the open database;
  the schema statements create what is missing and change no row; then the image is
  saved, and only after that the plugin counts as initialized.
\<close>

definition init :: "plugin \<Rightarrow> (error + unit) \<times> plugin" where
  "init s =
     (if initialized s then (Inr (), s)
      else
        (case save (s\<lparr>db := Some (case disk s of None \<Rightarrow> [] | Some t \<Rightarrow> t)\<rparr>) of
           (Inl e, s1) \<Rightarrow> (Inl e, s1)
         | (Inr u, s1) \<Rightarrow> (Inr (), s1\<lparr>initialized := True\<rparr>)))"

definition close :: "plugin \<Rightarrow> (error + unit) \<times> plugin" where
  "close s =
     (case saveIfDirty s of
        (Inl e, s1) \<Rightarrow> (Inl e, s1)
      | (Inr u, s1) \<Rightarrow> (Inr (), s1\<lparr>db := None, initialized := False\<rparr>))"

subsection \<open>stats\<close>

record Stats =
  total :: nat
  byCategory :: "MemoryCategory \<Rightarrow> nat option"

definition count_category :: "row list \<Rightarrow> MemoryCategory \<Rightarrow> nat option" where
  "count_category t c =
     (let n = length (filter (\<lambda>r. row_category r = c) t) in if n = 0 then None else Some n)"

definition stats :: "plugin \<Rightarrow> (error + Stats) \<times> plugin" where
  "stats s =
     (case db s of
        None \<Rightarrow> (Inl NotInitialized, s)
      | Some t \<Rightarrow> (Inr \<lparr>total = length t, byCategory = count_category t\<rparr>, s))"

subsection \<open>The SQL statements\<close>

text \<open>
  \<^verbatim>\<open>ORDER BY importance ASC, created_at ASC\<close> and \<^verbatim>\<open>ORDER BY importance DESC, created_at DESC\<close>.
  SQL leaves open in which order rows with the same importance and the same \<open>created_at\<close>
  come; the model sorts stably.
\<close>

definition rank_key :: "row \<Rightarrow> real \<times> string" where
  "rank_key r = (row_importance r, created_at r)"

definition order_by_asc :: "row list \<Rightarrow> row list" where
  "order_by_asc t = sort_key rank_key t"

definition order_by_desc :: "row list \<Rightarrow> row list" where
  "order_by_desc t = rev (sort_key rank_key t)"

text \<open>
  \<^verbatim>\<open>DELETE FROM memories WHERE id IN (...)\<close>, with the count that \<^verbatim>\<open>getRowsModified\<close>
  gives afterwards.
\<close>

definition delete_ids :: "string list \<Rightarrow> row list \<Rightarrow> row list \<times> nat" where
  "delete_ids ids t =
     (filter (\<lambda>r. row_id r \<notin> set ids) t, length (filter (\<lambda>r. row_id r \<in> set ids) t))"

text \<open>\<^verbatim>\<open>INSERT INTO memories\<close>: the column \<open>id\<close> is the primary key.\<close>

definition insert_row :: "row \<Rightarrow> row list \<Rightarrow> error + row list" where
  "insert_row r t = (if row_id r \<in> set (map row_id t) then Inl ConstraintFailed else Inr (t @ [r]))"

subsection \<open>recall\<close>

text \<open>
  The conditions that \<^verbatim>\<open>recall\<close> pushes, in the order of the source. \<open>TextLike ws\<close> is the
  parenthesised \<^verbatim>\<open>text_lower LIKE ? OR ... OR text_lower LIKE ?\<close>, one bound value
  \<^verbatim>\<open>%word%\<close> for each word.
\<close>

datatype condition =
    TextLike "string list"
  | CategoryIs MemoryCategory
  | CreatedFrom string
  | CreatedTo string

fun holds :: "condition \<Rightarrow> row \<Rightarrow> bool" where
  "holds (TextLike ws) r = list_ex (\<lambda>w. like_match (CHR ''%'' # w @ ''%'') (text_lower r)) ws"
| "holds (CategoryIs c) r = (row_category r = c)"
| "holds (CreatedFrom d) r = (d \<le> created_at r)"
| "holds (CreatedTo d) r = (created_at r \<le> d)"

text \<open>The WHERE clause joins the conditions with AND; with no condition there is no clause.\<close>

definition where_clause :: "condition list \<Rightarrow> row \<Rightarrow> bool" where
  "where_clause conds r = list_all (\<lambda>c. holds c r) conds"

definition query_words :: "string \<Rightarrow> string list" where
  "query_words q = filter (\<lambda>w. length w > 1) (split_ws (toLowerCase q))"

definition text_conditions :: "MemoryRecallParams \<Rightarrow> condition list" where
  "text_conditions p =
     (if query p \<noteq> [] then
        (let ws = query_words (query p) in if length ws > 0 then [TextLike ws] else [])
      else [])"

definition category_conditions :: "MemoryRecallParams \<Rightarrow> condition list" where
  "category_conditions p = (case r_category p of None \<Rightarrow> [] | Some c \<Rightarrow> [CategoryIs c])"

definition date_conditions :: "MemoryRecallParams \<Rightarrow> condition list" where
  "date_conditions p =
     (case dateFrom p of None \<Rightarrow> [] | Some d \<Rightarrow> if d \<noteq> [] then [CreatedFrom d] else [])
     @ (case dateTo p of None \<Rightarrow> [] | Some d \<Rightarrow> if d \<noteq> [] then [CreatedTo d] else [])"

definition conditions :: "MemoryRecallParams \<Rightarrow> condition list" where
  "conditions p = text_conditions p @ category_conditions p @ date_conditions p"

text \<open>\<^verbatim>\<open>params.limit || 5\<close>\<close>

definition effective_limit :: "MemoryRecallParams \<Rightarrow> int" where
  "effective_limit p = (case limit p of None \<Rightarrow> 5 | Some n \<Rightarrow> if n = 0 then 5 else n)"

text \<open>\<^verbatim>\<open>LIMIT n\<close> of SQLite: the first \<open>n\<close> rows, and all rows when \<open>n\<close> is negative.\<close>

definition sql_limit :: "int \<Rightarrow> 'a list \<Rightarrow> 'a list" where
  "sql_limit n xs = (if n < 0 then xs else take (nat n) xs)"

text \<open>
  \<^verbatim>\<open>xs.slice(0, n)\<close>: the first \<open>n\<close> elements, and all but the last \<open>- n\<close> elements
  when \<open>n\<close> is negative.
\<close>

definition slice :: "int \<Rightarrow> 'a list \<Rightarrow> 'a list" where
  "slice n xs = (if n < 0 then take (length xs - nat (- n)) xs else take (nat n) xs)"

text \<open>The SELECT statement with its \<^verbatim>\<open>LIMIT\<close> of twice the limit.\<close>

definition select_rows :: "MemoryRecallParams \<Rightarrow> row list \<Rightarrow> row list" where
  "select_rows p t =
     sql_limit (effective_limit p * 2) (order_by_desc (filter (where_clause (conditions p)) t))"

definition memory_of_row :: "row \<Rightarrow> Memory" where
  "memory_of_row r =
     \<lparr>mid = row_id r,
      mtext = row_text r,
      category = row_category r,
      importance = row_importance r,
      createdAt = created_at r,
      updatedAt = updated_at r,
      sessionKey = (case session_key r of None \<Rightarrow> None | Some k \<Rightarrow> if k = [] then None else Some k),
      metadata = (case row_metadata r of None \<Rightarrow> None | Some j \<Rightarrow> if j = [] then None else Some j)\<rparr>"

definition is_noise :: "regex list \<Rightarrow> Memory \<Rightarrow> bool" where
  "is_noise noiseRegexes m = list_ex (\<lambda>re. regex_test re (mtext m)) noiseRegexes"

definition recall :: "MemoryRecallParams \<Rightarrow> plugin \<Rightarrow> (error + Memory list) \<times> plugin" where
  "recall p s =
     (case db s of
        None \<Rightarrow> (Inl NotInitialized, s)
      | Some t \<Rightarrow>
          (let rows = map memory_of_row (select_rows p t);
               memories =
                 (if filterNoise p \<noteq> Some False
                  then filter (\<lambda>m. \<not> is_noise (noisePatterns (config s)) m) rows
                  else rows)
           in (Inr (slice (effective_limit p) memories), s)))"

subsection \<open>store and the eviction\<close>

definition pruneOldMemories :: "plugin \<Rightarrow> (error + unit) \<times> plugin" where
  "pruneOldMemories s =
     (case stats s of
        (Inl e, s1) \<Rightarrow> (Inl e, s1)
      | (Inr st, s1) \<Rightarrow>
          (if total st > maxMemories (config s1) then
             (let toDelete = total st - maxMemories (config s1);
                  t = the (db s1);
                  victims = map row_id (take toDelete (order_by_asc t))
              in markDirty (s1\<lparr>db := Some (fst (delete_ids victims t))\<rparr>))
           else (Inr (), s1)))"

text \<open>
  \<^verbatim>\<open>store\<close> takes the value of \<^verbatim>\<open>randomUUID()\<close> and the value of
  \<^verbatim>\<open>new Date().toISOString()\<close> as arguments.
\<close>

definition new_memory :: "MemoryStoreParams \<Rightarrow> string \<Rightarrow> string \<Rightarrow> Config \<Rightarrow> Memory" where
  "new_memory p uuid now c =
     \<lparr>mid = uuid,
      mtext = s_text p,
      category = (case s_category p of None \<Rightarrow> Other | Some k \<Rightarrow> k),
      importance = (case s_importance p of None \<Rightarrow> defaultImportance c | Some x \<Rightarrow> x),
      createdAt = now,
      updatedAt = now,
      sessionKey = s_sessionKey p,
      metadata = s_metadata p\<rparr>"

definition inserted_row :: "Memory \<Rightarrow> row" where
  "inserted_row m =
     \<lparr>row_id = mid m,
      row_text = mtext m,
      text_lower = toLowerCase (mtext m),
      row_category = category m,
      row_importance = importance m,
      created_at = createdAt m,
      updated_at = updatedAt m,
      session_key = (case sessionKey m of None \<Rightarrow> None | Some k \<Rightarrow> if k = [] then None else Some k),
      row_metadata = metadata m\<rparr>"

definition store ::
  "MemoryStoreParams \<Rightarrow> string \<Rightarrow> string \<Rightarrow> plugin \<Rightarrow> (error + Memory) \<times> plugin" where
  "store p uuid now s =
     (case db s of
        None \<Rightarrow> (Inl NotInitialized, s)
      | Some t \<Rightarrow>
          (let memory = new_memory p uuid now (config s)
           in case insert_row (inserted_row memory) t of
                Inl e \<Rightarrow> (Inl e, s)
              | Inr t1 \<Rightarrow>
                  (case markDirty (s\<lparr>db := Some t1\<rparr>) of
                     (Inl e, s1) \<Rightarrow> (Inl e, s1)
                   | (Inr u, s1) \<Rightarrow>
                       (case pruneOldMemories s1 of
                          (Inl e, s2) \<Rightarrow> (Inl e, s2)
                        | (Inr u, s2) \<Rightarrow> (Inr memory, s2)))))"

subsection \<open>forget\<close>

record ForgetResult =
  deleted :: nat

definition given :: "string option \<Rightarrow> bool" where
  "given x = (case x of None \<Rightarrow> False | Some v \<Rightarrow> v \<noteq> [])"

text \<open>The end of \<^verbatim>\<open>forget\<close>, after either way of deleting.\<close>

definition forget_finish :: "row list \<times> nat \<Rightarrow> plugin \<Rightarrow> (error + ForgetResult) \<times> plugin" where
  "forget_finish res s =
     (let s1 = s\<lparr>db := Some (fst res)\<rparr>
      in if snd res > 0 then
           (case markDirty s1 of
              (Inl e, s2) \<Rightarrow> (Inl e, s2)
            | (Inr u, s2) \<Rightarrow> (Inr \<lparr>deleted = snd res\<rparr>, s2))
         else (Inr \<lparr>deleted = snd res\<rparr>, s1))"

definition forget_recall_params :: "string \<Rightarrow> MemoryRecallParams" where
  "forget_recall_params q =
     \<lparr>query = q, limit = Some 100, r_category = None, dateFrom = None, dateTo = None,
      filterNoise = Some False\<rparr>"

definition forget :: "MemoryForgetParams \<Rightarrow> plugin \<Rightarrow> (error + ForgetResult) \<times> plugin" where
  "forget p s =
     (case db s of
        None \<Rightarrow> (Inl NotInitialized, s)
      | Some t \<Rightarrow>
          (if given (memoryId p) then forget_finish (delete_ids [the (memoryId p)] t) s
           else if given (f_query p) then
             (case recall (forget_recall_params (the (f_query p))) s of
                (Inl e, s1) \<Rightarrow> (Inl e, s1)
              | (Inr memories, s1) \<Rightarrow>
                  forget_finish
                    (if length memories > 0 then delete_ids (map mid memories) t else (t, 0)) s1)
           else forget_finish (t, 0) s))"

section \<open>Notions of the specification\<close>

text \<open>A word with no wildcard of LIKE in it.\<close>

definition plain :: "string \<Rightarrow> bool" where
  "plain w = (CHR ''%'' \<notin> set w \<and> CHR ''_'' \<notin> set w)"

text \<open>
  The order of a result: importance descending, and among equal importances
  \<open>createdAt\<close> descending.
\<close>

definition ranked :: "Memory list \<Rightarrow> bool" where
  "ranked ms =
     sorted_wrt (\<lambda>a b. importance b < importance a
                   \<or> (importance a = importance b \<and> createdAt b \<le> createdAt a)) ms"

text \<open>A pattern read as a pattern for the whole string: \<^verbatim>\<open>^(?:re)$\<close>.\<close>

definition whole_string :: "regex \<Rightarrow> regex" where
  "whole_string re = Seq Bol (Seq re Eol)"

text \<open>
  A change of the table can be followed by its save: the file can be written, or the
  save is left to the timer.
\<close>

definition can_save :: "plugin \<Rightarrow> bool" where
  "can_save s = (writable s \<or> autoSaveInterval (config s) \<noteq> 0)"

text \<open>The constraint \<^verbatim>\<open>id TEXT PRIMARY KEY\<close> of the table: no two rows have the same id.\<close>

definition primary_key :: "row list \<Rightarrow> bool" where
  "primary_key t = distinct (map row_id t)"

text \<open>
  What the eviction leaves of a table under the ceiling \<open>n\<close>: the DELETE statement of
  \<^verbatim>\<open>pruneOldMemories\<close> applied to the rows.
\<close>

definition evict :: "nat \<Rightarrow> row list \<Rightarrow> row list" where
  "evict n t =
     (if length t > n
      then fst (delete_ids (map row_id (take (length t - n) (order_by_asc t))) t)
      else t)"

text \<open>
  The order of eviction: \<open>d\<close> goes no later than \<open>k\<close> when it is less important, or as
  important and no younger.
\<close>

definition evicted_first :: "row \<Rightarrow> row \<Rightarrow> bool" where
  "evicted_first d k =
     (row_importance d < row_importance k
        \<or> (row_importance d = row_importance k \<and> created_at d \<le> created_at k))"

text \<open>
  A run of \<^verbatim>\<open>store\<close> calls, each with its parameters, its fresh id and its time, and the
  row that each call inserts.
\<close>

fun store_all :: "(MemoryStoreParams \<times> string \<times> string) list \<Rightarrow> plugin \<Rightarrow> plugin" where
  "store_all [] s = s"
| "store_all ((p, uuid, now) # xs) s = store_all xs (snd (store p uuid now s))"

definition stored_row :: "Config \<Rightarrow> MemoryStoreParams \<times> string \<times> string \<Rightarrow> row" where
  "stored_row c x = inserted_row (new_memory (fst x) (fst (snd x)) (snd (snd x)) c)"

text \<open>The invariant of a row: the two derived columns agree with their sources.\<close>

definition well_formed :: "row \<Rightarrow> bool" where
  "well_formed r = (text_lower r = toLowerCase (row_text r) \<and> updated_at r = created_at r)"

text \<open>The rows that a plugin holds, in its open database and in its file.\<close>

definition rows_of :: "row list option \<Rightarrow> row set" where
  "rows_of x = (case x of None \<Rightarrow> {} | Some t \<Rightarrow> set t)"

definition persisted :: "plugin \<Rightarrow> row set" where
  "persisted s = rows_of (db s) \<union> rows_of (disk s)"

definition all_well_formed :: "plugin \<Rightarrow> bool" where
  "all_well_formed s = (\<forall>r\<in>persisted s. well_formed r)"

text \<open>The calls that a host can make, and what a call and a run of calls leave.\<close>

datatype call =
    CallInit
  | CallStore MemoryStoreParams string string
  | CallRecall MemoryRecallParams
  | CallForget MemoryForgetParams
  | CallStats
  | CallClose

fun perform :: "call \<Rightarrow> plugin \<Rightarrow> plugin" where
  "perform CallInit s = snd (init s)"
| "perform (CallStore p uuid now) s = snd (store p uuid now s)"
| "perform (CallRecall p) s = snd (recall p s)"
| "perform (CallForget p) s = snd (forget p s)"
| "perform CallStats s = snd (stats s)"
| "perform CallClose s = snd (close s)"

definition run :: "call list \<Rightarrow> plugin \<Rightarrow> plugin" where
  "run cs s = fold perform cs s"

section \<open>Example stores\<close>

text \<open>
  The stores used to exercise the theorems below. \<open>quick_test\<close> is the store that the
  quick test of the repository builds: five memories, one of them the noise \<open>ok\<close>.
\<close>

definition no_config :: PluginConfig where
  "no_config =
     \<lparr>c_maxMemories = None, c_defaultImportance = None, c_noisePatterns = None,
      c_autoSaveInterval = None\<rparr>"

definition fresh :: plugin where
  "fresh = snd (init (constructor no_config None True))"

definition memo :: "string \<Rightarrow> MemoryCategory \<Rightarrow> real option \<Rightarrow> MemoryStoreParams" where
  "memo t c i =
     \<lparr>s_text = t, s_category = Some c, s_importance = i, s_sessionKey = None,
      s_metadata = None\<rparr>"

definition ask :: "string \<Rightarrow> MemoryRecallParams" where
  "ask q =
     \<lparr>query = q, limit = None, r_category = None, dateFrom = None, dateTo = None,
      filterNoise = None\<rparr>"

definition quick_test :: plugin where
  "quick_test =
     (let s1 = snd (store (memo ''User prefers dark mode'' Preference (Some 0.9))
                      ''m1'' ''2026-01-01T10:00:01Z'' fresh);
          s2 = snd (store (memo ''User lives in Switzerland'' Fact (Some 0.8))
                      ''m2'' ''2026-01-01T10:00:02Z'' s1);
          s3 = snd (store (memo ''Decided to use TypeScript'' Decision (Some 0.7))
                      ''m3'' ''2026-01-01T10:00:03Z'' s2);
          s4 = snd (store (memo ''ok'' Conversation None)
                      ''m4'' ''2026-01-01T10:00:04Z'' s3)
      in snd (store (memo ''Meeting with Andre'' Conversation (Some 0.85))
                ''m5'' ''2026-01-01T10:00:05Z'' s4))"

text \<open>A store with the one memory \<open>abc\<close>.\<close>

definition wildcard_store :: plugin where
  "wildcard_store = snd (store (memo ''abc'' Fact None) ''w1'' ''2026-02-01T08:00:00Z'' fresh)"

text \<open>A store whose only noise pattern is \<^verbatim>\<open>ok\<close>, with the one memory \<open>book\<close>.\<close>

definition custom_noise_store :: plugin where
  "custom_noise_store =
     snd (store (memo ''book'' Fact None) ''b1'' ''2026-02-01T08:00:00Z''
            (snd (init (constructor (no_config\<lparr>c_noisePatterns := Some [word ''ok'']\<rparr>)
                          None True))))"



text \<open>
  A store with room for two memories, three \<^verbatim>\<open>store\<close> calls, and the store after the
  first two of them.
\<close>

definition tiny :: plugin where
  "tiny = snd (init (constructor (no_config\<lparr>c_maxMemories := Some 2\<rparr>) None True))"

definition three_memories :: "(MemoryStoreParams \<times> string \<times> string) list" where
  "three_memories =
     [(memo ''likes tea'' Preference (Some 0.5), ''e1'', ''2026-04-01T07:00:01Z''),
      (memo ''owns a cat'' Fact (Some 0.9), ''e2'', ''2026-04-01T07:00:02Z''),
      (memo ''chose Isabelle'' Decision (Some 0.7), ''e3'', ''2026-04-01T07:00:03Z'')]"

definition tiny_full :: plugin where
  "tiny_full = store_all (take 2 three_memories) tiny"

text \<open>A fresh store after the one memory \<open>ok\<close>.\<close>

definition ok_store :: plugin where
  "ok_store = snd (store (memo ''ok'' Conversation None) ''k1'' ''2026-06-01T06:00:00Z'' fresh)"

text \<open>
  A plugin whose database file cannot be written, with a save timer of one second, after
  its \<^verbatim>\<open>init\<close>.
\<close>

definition read_only :: plugin where
  "read_only =
     snd (init (constructor (no_config\<lparr>c_autoSaveInterval := Some 1000\<rparr>) None False))"



section \<open>Facts about LIKE\<close>

lemma like_percent_all: "like_match ''%'' s"
  by (induction s) auto

lemma like_percent_prefix:
  "like_match (CHR ''%'' # p) s \<longleftrightarrow> (\<exists>a v. s = a @ v \<and> like_match p v)"
proof (induction s)
  case Nil
  then show ?case by simp
next
  case (Cons c cs)
  have "like_match (CHR ''%'' # p) (c # cs)
          \<longleftrightarrow> like_match p (c # cs) \<or> (\<exists>a v. cs = a @ v \<and> like_match p v)"
    using Cons.IH by simp
  also have "\<dots> \<longleftrightarrow> (\<exists>a v. c # cs = a @ v \<and> like_match p v)"
    by (auto simp: Cons_eq_append_conv) 
  finally show ?case .
qed

lemma like_percent_suffix:
  "like_match (p @ ''%'') s \<longleftrightarrow> (\<exists>v b. s = v @ b \<and> like_match p v)"
proof (induction p s rule: like_match.induct)
  case (1 s)
  then show ?case by (simp add: like_percent_all)
next
  case (2 p ps)
  then show ?case by simp
next
  case (3 p ps c cs)
  show ?case
  proof (cases "p = CHR ''%''")
    case True
    have step: "like_match ((p # ps) @ ''%'') (c # cs)
        \<longleftrightarrow> (\<exists>v b. c # cs = v @ b \<and> like_match ps v)
            \<or> (\<exists>v b. cs = v @ b \<and> like_match (p # ps) v)"
      using 3 True by simp
    show ?thesis
    proof
      assume "like_match ((p # ps) @ ''%'') (c # cs)"
      with step consider
          (now) v b where "c # cs = v @ b" "like_match ps v"
        | (later) v b where "cs = v @ b" "like_match (p # ps) v"
        by blast
      then show "\<exists>v b. c # cs = v @ b \<and> like_match (p # ps) v"
      proof cases
        case now
        from now(2) have "like_match (p # ps) v"
          using True by (cases v) simp_all
        with now(1) show ?thesis by blast
      next
        case later
        from later(2) have "like_match (p # ps) (c # v)"
          using True by simp
        moreover from later(1) have "c # cs = (c # v) @ b" by simp
        ultimately show ?thesis by blast
      qed
    next
      assume "\<exists>v b. c # cs = v @ b \<and> like_match (p # ps) v"
      then obtain v b where vb: "c # cs = v @ b" "like_match (p # ps) v"
        by blast
      show "like_match ((p # ps) @ ''%'') (c # cs)"
      proof (cases v)
        case Nil
        with vb True have "like_match ps []" by simp
        with vb Nil have "\<exists>v b. c # cs = v @ b \<and> like_match ps v" by blast
        with step show ?thesis by blast
      next
        case (Cons d v')
        with vb have d: "d = c" "cs = v' @ b" by simp_all
        from vb(2) Cons d True have "like_match ps (c # v') \<or> like_match (p # ps) v'"
          by simp
        then show ?thesis
        proof
          assume "like_match ps (c # v')"
          with d have "\<exists>v b. c # cs = v @ b \<and> like_match ps v"
            by (metis append_Cons)
          with step show ?thesis by blast
        next
          assume "like_match (p # ps) v'"
          with d have "\<exists>v b. cs = v @ b \<and> like_match (p # ps) v" by blast
          with step show ?thesis by blast
        qed
      qed
    qed
  next
    case False
    have "(\<exists>v b. c # cs = v @ b \<and> like_match (p # ps) v)
            \<longleftrightarrow> (\<exists>v' b. cs = v' @ b \<and> like_match (p # ps) (c # v'))"
    proof
      assume "\<exists>v b. c # cs = v @ b \<and> like_match (p # ps) v"
      then obtain v b where vb: "c # cs = v @ b" "like_match (p # ps) v"
        by blast
      with False obtain v' where "v = c # v'" "cs = v' @ b"
        by (cases v) auto
      with vb show "\<exists>v' b. cs = v' @ b \<and> like_match (p # ps) (c # v')"
        by blast
    next
      assume "\<exists>v' b. cs = v' @ b \<and> like_match (p # ps) (c # v')"
      then obtain v' b where "cs = v' @ b" "like_match (p # ps) (c # v')"
        by blast
      then have "c # cs = (c # v') @ b \<and> like_match (p # ps) (c # v')"
        by simp
      then show "\<exists>v b. c # cs = v @ b \<and> like_match (p # ps) v"
        by blast
    qed
    with 3 False show ?thesis
      by auto
  qed
qed

lemma like_contains:
  "like_match (CHR ''%'' # w @ ''%'') t \<longleftrightarrow> (\<exists>a v b. t = a @ v @ b \<and> like_match w v)"
  by (simp add: like_percent_prefix like_percent_suffix) blast

lemma like_self: "like_match w w"
proof (induction w)
  case Nil
  then show ?case by simp
next
  case (Cons c w)
  then have "like_match (CHR ''%'' # w) w"
    unfolding like_percent_prefix by (metis append_Nil)
  with Cons show ?case by simp
qed

lemma like_sublist: "sublist w t \<Longrightarrow> like_match (CHR ''%'' # w @ ''%'') t"
  unfolding like_contains sublist_def using like_self by blast

lemma like_plain:
  "plain w \<Longrightarrow> like_match w v \<longleftrightarrow> map sqlite_tolower w = map sqlite_tolower v"
  by (induction w v rule: like_match.induct) (auto simp: plain_def)

section \<open>Facts about the ranking\<close>

lemma order_by_desc_sorted:
  "sorted_wrt (\<lambda>x y. rank_key y \<le> rank_key x) (order_by_desc t)"
proof -
  have "sorted (map rank_key (sort_key rank_key t))"
    by (rule sorted_sort_key)
  then have "sorted_wrt (\<lambda>x y. rank_key x \<le> rank_key y) (sort_key rank_key t)"
    by (simp add: sorted_wrt_map)
  then show ?thesis
    by (simp add: order_by_desc_def sorted_wrt_rev)
qed

lemma sql_limit_take: "sql_limit n xs = take (if n < 0 then length xs else nat n) xs"
  by (simp add: sql_limit_def)

lemma slice_take:
  "slice n xs = take (if n < 0 then length xs - nat (- n) else nat n) xs"
  by (simp add: slice_def)

lemma slice_map: "slice n (map f xs) = map f (slice n xs)"
  by (simp add: slice_def take_map)


lemma select_rows_sorted:
  "sorted_wrt (\<lambda>x y. rank_key y \<le> rank_key x) (select_rows p t)"
  unfolding select_rows_def sql_limit_take
  by (rule sorted_wrt_take) (rule order_by_desc_sorted)

lemma rank_key_memory:
  "rank_key y \<le> rank_key x \<Longrightarrow>
   importance (memory_of_row y) < importance (memory_of_row x)
     \<or> (importance (memory_of_row x) = importance (memory_of_row y)
          \<and> createdAt (memory_of_row y) \<le> createdAt (memory_of_row x))"
  by (auto simp: rank_key_def memory_of_row_def less_eq_prod_def)

lemma fetched_ranked: "ranked (map memory_of_row (select_rows p t))"
  unfolding ranked_def sorted_wrt_map
  by (rule sorted_wrt_mono_rel [OF _ select_rows_sorted]) (rule rank_key_memory)

lemma ranked_filter: "ranked ms \<Longrightarrow> ranked (filter P ms)"
  by (simp add: ranked_def sorted_wrt_filter)

lemma ranked_take: "ranked ms \<Longrightarrow> ranked (take n ms)"
  by (simp add: ranked_def)

lemma ranked_slice: "ranked ms \<Longrightarrow> ranked (slice n ms)"
  unfolding slice_take by (rule ranked_take)

lemma in_set_sliceD: "x \<in> set (slice n xs) \<Longrightarrow> x \<in> set xs"
  unfolding slice_take by (rule in_set_takeD)

section \<open>Facts about the words of a query\<close>

lemma split_ws_from_sublist:
  "w \<in> set (split_ws_from cur s) \<Longrightarrow> sublist w (cur @ s)"
proof (induction cur s rule: split_ws_from.induct)
  case (1 cur)
  then show ?case by simp
next
  case (2 cur c cs)
  show ?case
  proof (cases "is_whitespace c")
    case True
    with 2 consider "w = cur" | "w \<in> set (split_ws_from [] (dropWhile is_whitespace cs))"
      by auto
    then show ?thesis
    proof cases
      case 1
      then show ?thesis by (simp add: sublist_append_rightI)
    next
      case 2
      with "2.IH"(1) True have "sublist w (dropWhile is_whitespace cs)"
        by simp
      moreover have "suffix (dropWhile is_whitespace cs) (cur @ c # cs)"
        by (metis suffix_dropWhile suffix_order.trans suffixI append.assoc append_Cons append_Nil)
      ultimately show ?thesis
        by (meson sublist_order.order.trans suffix_imp_sublist)
    qed
  next
    case False
    with 2 show ?thesis by simp
  qed
qed

lemma split_ws_from_no_space:
  "w \<in> set (split_ws_from cur s) \<Longrightarrow> \<forall>c\<in>set cur. \<not> is_whitespace c \<Longrightarrow>
   \<forall>c\<in>set w. \<not> is_whitespace c"
proof (induction cur s rule: split_ws_from.induct)
  case (1 cur)
  then show ?case by simp
next
  case (2 cur c cs)
  show ?case
  proof (cases "is_whitespace c")
    case True
    with 2 show ?thesis by auto
  next
    case False
    with 2 show ?thesis by auto
  qed
qed

lemma query_words_sublist: "w \<in> set (query_words q) \<Longrightarrow> sublist w (toLowerCase q)"
  using split_ws_from_sublist [of w "[]" "toLowerCase q"]
  by (simp add: query_words_def split_ws_def)

lemma query_words_token:
  "w \<in> set (query_words q) \<Longrightarrow> 1 < length w \<and> (\<forall>c\<in>set w. \<not> is_whitespace c)"
  using split_ws_from_no_space [of w "[]" "toLowerCase q"]
  by (simp add: query_words_def split_ws_def)

lemma code_unit_char_of: "n < 256 \<Longrightarrow> code_unit (char_of n) = n"
  by (simp add: code_unit_def)

lemma code_unit_less: "code_unit c < 256"
  by (simp add: code_unit_def)

lemma toLowerCase_unit_lower: "\<not> is_upper_ascii (toLowerCase_unit c)"
  using code_unit_less [of c]
  by (auto simp: toLowerCase_unit_def is_upper_ascii_def is_upper_latin1_def code_unit_char_of)

lemma toLowerCase_lower: "c \<in> set (toLowerCase s) \<Longrightarrow> \<not> is_upper_ascii c"
  by (auto simp: toLowerCase_def toLowerCase_unit_lower)

lemma sqlite_tolower_lower: "\<forall>c\<in>set s. \<not> is_upper_ascii c \<Longrightarrow> map sqlite_tolower s = s"
  by (induction s) (auto simp: sqlite_tolower_def)

lemma like_plain_lower:
  assumes "plain w" and "sublist w (toLowerCase q)"
  shows "like_match (CHR ''%'' # w @ ''%'') (toLowerCase t) \<longleftrightarrow> sublist w (toLowerCase t)"
proof
  assume "sublist w (toLowerCase t)"
  then show "like_match (CHR ''%'' # w @ ''%'') (toLowerCase t)"
    by (rule like_sublist)
next
  assume "like_match (CHR ''%'' # w @ ''%'') (toLowerCase t)"
  then obtain a v b where t: "toLowerCase t = a @ v @ b" and "like_match w v"
    unfolding like_contains by blast
  with assms(1) have eq: "map sqlite_tolower w = map sqlite_tolower v"
    by (simp add: like_plain)
  have "\<forall>c\<in>set w. \<not> is_upper_ascii c"
    using assms(2) toLowerCase_lower by (metis set_mono_sublist subsetD)
  moreover have "\<forall>c\<in>set v. \<not> is_upper_ascii c"
    using t toLowerCase_lower [of _ t] by simp
  ultimately have "w = v"
    using eq by (simp add: sqlite_tolower_lower)
  with t show "sublist w (toLowerCase t)"
    by (auto simp: sublist_def)
qed

lemma conditions_hold:
  "where_clause (conditions p) r \<longleftrightarrow>
     (query_words (query p) = []
        \<or> (\<exists>w\<in>set (query_words (query p)). like_match (CHR ''%'' # w @ ''%'') (text_lower r)))
     \<and> (\<forall>c. r_category p = Some c \<longrightarrow> row_category r = c)
     \<and> (\<forall>d. dateFrom p = Some d \<longrightarrow> d \<noteq> [] \<longrightarrow> d \<le> created_at r)
     \<and> (\<forall>d. dateTo p = Some d \<longrightarrow> d \<noteq> [] \<longrightarrow> created_at r \<le> d)"
proof -
  have empty: "query_words [] = []"
    by (simp add: query_words_def split_ws_def toLowerCase_def)
  show ?thesis
    by (cases "query p = []")
       (auto simp: where_clause_def conditions_def text_conditions_def category_conditions_def
          date_conditions_def Let_def empty list_ex_iff split: option.splits)
qed

section \<open>Facts about recall\<close>

lemma recall_ready: "db s = Some t \<Longrightarrow> recall p s = (Inr (projr (fst (recall p s))), s)"
  by (simp add: recall_def Let_def)

lemma recall_cong:
  "effective_limit p = effective_limit q \<Longrightarrow> conditions p = conditions q \<Longrightarrow>
   filterNoise p = filterNoise q \<Longrightarrow> recall p s = recall q s"
  by (cases "db s") (simp_all add: recall_def select_rows_def)

lemma conditions_limit: "conditions (p\<lparr>limit := l\<rparr>) = conditions p"
  by (simp add: conditions_def text_conditions_def category_conditions_def date_conditions_def)

section \<open>Facts about the noise patterns\<close>

lemma test_bol: "regex_test (Seq Bol r) s \<longleftrightarrow> ends r s 0 \<noteq> []"
proof -
  have "\<And>i. ends (Seq Bol r) s i = (if i = 0 then ends r s 0 else [])"
    by simp
  then have "regex_test (Seq Bol r) s
               \<longleftrightarrow> (\<exists>i\<in>set [0 ..< Suc (length s)]. i = 0 \<and> ends r s 0 \<noteq> [])"
    unfolding regex_test_def list_ex_iff by auto
  then show ?thesis by auto
qed

lemma ends_eol: "set (ends (Seq r Eol) s i) = {j \<in> set (ends r s i). j = length s}"
  by auto

lemma test_whole: "regex_test (whole_string r) s \<longleftrightarrow> length s \<in> set (ends r s 0)"
proof -
  have "ends (Seq r Eol) s 0 \<noteq> [] \<longleftrightarrow> set (ends (Seq r Eol) s 0) \<noteq> {}"
    by (simp only: set_empty)
  also have "\<dots> \<longleftrightarrow> length s \<in> set (ends r s 0)"
    unfolding ends_eol by auto
  finally show ?thesis
    by (simp only: whole_string_def test_bol)
qed

lemma test_whole_twice: "regex_test (whole_string (whole_string r)) s = regex_test (whole_string r) s"
proof -
  have "set (ends (whole_string r) s 0) = {j \<in> set (ends r s 0). j = length s}"
    by (auto simp: whole_string_def)
  then show ?thesis
    by (simp add: test_whole)
qed

lemma default_patterns:
  "noisePatterns DEFAULT_CONFIG
     = [whole_string (alternatives (map word acknowledgements)), whole_string (Star Space)]"
  by (simp add: DEFAULT_CONFIG_def whole_string_def)

lemma ok_is_noise: "regex_test (whole_string (alternatives (map word acknowledgements))) ''ok''"
  by code_simp

lemma is_noise_iff: "is_noise res m \<longleftrightarrow> (\<exists>re\<in>set res. regex_test re (mtext m))"
  by (simp add: is_noise_def list_ex_iff)

section \<open>Facts about store and the eviction\<close>

lemma save_fields [simp]:
  "db (snd (save s)) = db s" "config (snd (save s)) = config s"
  "writable (snd (save s)) = writable s"
  by (simp_all add: save_def split: option.split)

lemma markDirty_fields [simp]:
  "db (snd (markDirty s)) = db s" "config (snd (markDirty s)) = config s"
  "writable (snd (markDirty s)) = writable s"
  by (simp_all add: markDirty_def Let_def)

lemma can_save_db [simp]: "can_save (s\<lparr>db := x\<rparr>) = can_save s"
  by (simp add: can_save_def)

lemma can_save_cong: "writable s' = writable s \<Longrightarrow> config s' = config s \<Longrightarrow> can_save s' = can_save s"
  by (simp add: can_save_def)

lemma markDirty_ok:
  assumes "can_save s"
  obtains s1 where "markDirty s = (Inr (), s1)" and "db s1 = db s" and "config s1 = config s"
    and "writable s1 = writable s"
proof -
  have "fst (markDirty s) = Inr ()"
    using assms by (auto simp: markDirty_def save_def can_save_def Let_def split: option.split)
  then have "markDirty s = (Inr (), snd (markDirty s))"
    by (metis prod.collapse)
  with that [of "snd (markDirty s)"] show thesis
    by simp
qed

lemma markDirty_fails:
  assumes "db s = Some t" and "\<not> can_save s"
  obtains s1 where "markDirty s = (Inl StorageIOFailure, s1)" and "db s1 = db s"
    and "config s1 = config s" and "writable s1 = writable s"
proof -
  have "fst (markDirty s) = Inl StorageIOFailure"
    using assms by (simp add: markDirty_def save_def can_save_def Let_def)
  then have "markDirty s = (Inl StorageIOFailure, snd (markDirty s))"
    by (metis prod.collapse)
  with that [of "snd (markDirty s)"] show thesis
    by simp
qed

lemma prune_db:
  assumes "db s = Some t"
  shows "db (snd (pruneOldMemories s)) = Some (evict (maxMemories (config s)) t)"
    and "config (snd (pruneOldMemories s)) = config s"
    and "writable (snd (pruneOldMemories s)) = writable s"
    and "can_save s \<Longrightarrow> fst (pruneOldMemories s) = Inr ()"
proof -
  let ?s1 = "s\<lparr>db := Some (fst (delete_ids (map row_id
      (take (length t - maxMemories (config s)) (order_by_asc t))) t))\<rparr>"
  have eq: "pruneOldMemories s =
      (if length t > maxMemories (config s) then markDirty ?s1 else (Inr (), s))"
    using assms by (simp add: pruneOldMemories_def stats_def Let_def)
  show "db (snd (pruneOldMemories s)) = Some (evict (maxMemories (config s)) t)"
    using assms by (simp add: eq evict_def)
  show "config (snd (pruneOldMemories s)) = config s"
    by (simp add: eq)
  show "writable (snd (pruneOldMemories s)) = writable s"
    by (simp add: eq)
  show "fst (pruneOldMemories s) = Inr ()" if "can_save s"
  proof -
    from that have "can_save ?s1"
      by simp
    then obtain s2 where "markDirty ?s1 = (Inr (), s2)"
      by (rule markDirty_ok)
    then show ?thesis
      by (simp add: eq)
  qed
qed

lemma store_db:
  assumes "db s = Some t" and "uuid \<notin> row_id ` set t" and "can_save s"
  shows "fst (store p uuid now s) = Inr (new_memory p uuid now (config s))"
    and "db (snd (store p uuid now s))
          = Some (evict (maxMemories (config s))
                    (t @ [inserted_row (new_memory p uuid now (config s))]))"
    and "config (snd (store p uuid now s)) = config s"
    and "writable (snd (store p uuid now s)) = writable s"
proof -
  let ?t1 = "t @ [inserted_row (new_memory p uuid now (config s))]"
  let ?s0 = "s\<lparr>db := Some ?t1\<rparr>"
  have ins: "insert_row (inserted_row (new_memory p uuid now (config s))) t = Inr ?t1"
    using assms(2) by (simp add: insert_row_def inserted_row_def new_memory_def)
  have "can_save ?s0"
    using assms(3) by simp
  then obtain s1 where md: "markDirty ?s0 = (Inr (), s1)"
    and s1: "db s1 = Some ?t1" "config s1 = config s" "writable s1 = writable s"
    by (rule markDirty_ok) simp_all
  then have "can_save s1"
    using assms(3) can_save_cong by blast
  from prune_db [OF s1(1)] this s1
  have pr: "fst (pruneOldMemories s1) = Inr ()"
    "db (snd (pruneOldMemories s1)) = Some (evict (maxMemories (config s)) ?t1)"
    "config (snd (pruneOldMemories s1)) = config s"
    "writable (snd (pruneOldMemories s1)) = writable s"
    by simp_all
  from pr(1) obtain s2 where s2: "pruneOldMemories s1 = (Inr (), s2)"
    by (cases "pruneOldMemories s1") auto
  have st: "store p uuid now s = (Inr (new_memory p uuid now (config s)), s2)"
    using assms(1) ins md s2 by (simp add: store_def Let_def)
  from st show "fst (store p uuid now s) = Inr (new_memory p uuid now (config s))"
    by simp
  from st pr s2 show "db (snd (store p uuid now s)) = Some (evict (maxMemories (config s)) ?t1)"
    by simp
  from st pr s2 show "config (snd (store p uuid now s)) = config s"
    by simp
  from st pr s2 show "writable (snd (store p uuid now s)) = writable s"
    by simp
qed

lemma store_clash:
  "db s = Some t \<Longrightarrow> uuid \<in> row_id ` set t \<Longrightarrow> store p uuid now s = (Inl ConstraintFailed, s)"
  by (simp add: store_def insert_row_def inserted_row_def new_memory_def Let_def)

lemma store_unsaved:
  assumes "db s = Some t" and "uuid \<notin> row_id ` set t" and "\<not> can_save s"
  shows "fst (store p uuid now s) = Inl StorageIOFailure"
proof -
  let ?t1 = "t @ [inserted_row (new_memory p uuid now (config s))]"
  have ins: "insert_row (inserted_row (new_memory p uuid now (config s))) t = Inr ?t1"
    using assms(2) by (simp add: insert_row_def inserted_row_def new_memory_def)
  have "db (s\<lparr>db := Some ?t1\<rparr>) = Some ?t1" and "\<not> can_save (s\<lparr>db := Some ?t1\<rparr>)"
    using assms(3) by simp_all
  then obtain s1 where "markDirty (s\<lparr>db := Some ?t1\<rparr>) = (Inl StorageIOFailure, s1)"
    by (rule markDirty_fails)
  with assms(1) ins show ?thesis
    by (simp add: store_def Let_def)
qed

lemma store_success:
  assumes "store p uuid now s = (Inr m, s')"
  shows "\<exists>t. db s = Some t \<and> uuid \<notin> row_id ` set t \<and> can_save s"
proof (cases "db s")
  case None
  with assms show ?thesis
    by (simp add: store_def)
next
  case (Some t)
  have "uuid \<notin> row_id ` set t"
    using assms store_clash [OF Some, of uuid p now] by auto
  moreover from this have "can_save s"
    using assms store_unsaved [OF Some, of uuid p now] by auto
  ultimately show ?thesis
    using Some by simp
qed

lemma primary_key_rows: "primary_key t \<Longrightarrow> distinct t"
  by (simp add: primary_key_def distinct_map)

lemma primary_key_same:
  "primary_key t \<Longrightarrow> a \<in> set t \<Longrightarrow> b \<in> set t \<Longrightarrow> row_id a = row_id b \<Longrightarrow> a = b"
  by (auto simp: primary_key_def distinct_map dest: inj_onD)

lemma delete_ids_rows:
  assumes "primary_key t" and "set v \<subseteq> set t"
  shows "fst (delete_ids (map row_id v) t) = filter (\<lambda>r. r \<notin> set v) t"
proof -
  have "\<And>r. r \<in> set t \<Longrightarrow> row_id r \<notin> set (map row_id v) \<longleftrightarrow> r \<notin> set v"
    using assms by (auto dest: primary_key_same)
  then show ?thesis
    by (auto simp: delete_ids_def intro: filter_cong)
qed

lemma victims_subset: "set (take k (order_by_asc t)) \<subseteq> set t"
  by (auto simp: order_by_asc_def dest: in_set_takeD)

lemma evict_rows:
  "primary_key t \<Longrightarrow>
   evict n t = (if length t > n
                then filter (\<lambda>r. r \<notin> set (take (length t - n) (order_by_asc t))) t else t)"
  by (simp add: evict_def delete_ids_rows victims_subset)

lemma evict_subset: "set (evict n t) \<subseteq> set t"
  by (auto simp: evict_def delete_ids_def)

lemma evict_length:
  assumes "primary_key t"
  shows "length (evict n t) = min (length t) n"
proof (cases "length t > n")
  case False
  then show ?thesis by (simp add: evict_def)
next
  case True
  let ?v = "take (length t - n) (order_by_asc t)"
  have dt: "distinct t"
    using assms by (rule primary_key_rows)
  then have dv: "distinct ?v"
    by (simp add: order_by_asc_def)
  have lv: "length ?v = length t - n"
    by (simp add: order_by_asc_def)
  have "{x. x \<notin> set ?v} \<inter> set t = set t - set ?v"
    by auto
  with dt have "length (filter (\<lambda>r. r \<notin> set ?v) t) = card (set t - set ?v)"
    by (simp only: distinct_length_filter)
  also have "\<dots> = card (set t) - card (set ?v)"
    by (rule card_Diff_subset) (simp_all add: victims_subset)
  also have "\<dots> = length t - (length t - n)"
    using dt dv lv by (simp add: distinct_card)
  finally show ?thesis
    using True assms by (simp add: evict_rows)
qed

lemma evict_choice:
  assumes "primary_key t" and "d \<in> set t" and "d \<notin> set (evict n t)" and "k \<in> set (evict n t)"
  shows "rank_key d \<le> rank_key k"
proof -
  let ?s = "order_by_asc t"
  let ?m = "length t - n"
  from assms(2,3) have over: "length t > n"
    by (auto simp: evict_def split: if_splits)
  with assms have d: "d \<in> set (take ?m ?s)" and k: "k \<in> set t" "k \<notin> set (take ?m ?s)"
    by (auto simp: evict_rows)
  have "set t = set (take ?m ?s) \<union> set (drop ?m ?s)"
    by (metis append_take_drop_id order_by_asc_def set_append set_sort)
  with k have k': "k \<in> set (drop ?m ?s)"
    by auto
  have "sorted (map rank_key (take ?m ?s @ drop ?m ?s))"
    by (simp add: order_by_asc_def)
  then have "\<forall>x\<in>set (take ?m ?s). \<forall>y\<in>set (drop ?m ?s). rank_key x \<le> rank_key y"
    unfolding map_append sorted_append by auto
  with d k' show ?thesis
    by blast
qed

lemma primary_key_evict: "primary_key t \<Longrightarrow> primary_key (evict n t)"
  by (auto simp: evict_def delete_ids_def primary_key_def distinct_map_filter)

lemma primary_key_insert:
  "primary_key t \<Longrightarrow> row_id r \<notin> row_id ` set t \<Longrightarrow> primary_key (t @ [r])"
  by (auto simp: primary_key_def)

lemma rank_key_le: "rank_key d \<le> rank_key k \<longleftrightarrow> evicted_first d k"
  by (auto simp: rank_key_def less_eq_prod_def evicted_first_def)

lemma stored_row_id [simp]: "row_id (stored_row c x) = fst (snd x)"
  by (simp add: stored_row_def inserted_row_def new_memory_def)

lemma evict_fits: "length t \<le> n \<Longrightarrow> evict n t = t"
  by (simp add: evict_def)

lemma store_all_append: "store_all (xs @ ys) s = store_all ys (store_all xs s)"
  by (induction xs s rule: store_all.induct) simp_all

lemma store_all_fits:
  "db s = Some t \<Longrightarrow> can_save s \<Longrightarrow> distinct (map (\<lambda>x. fst (snd x)) xs) \<Longrightarrow>
   (\<forall>x\<in>set xs. fst (snd x) \<notin> row_id ` set t) \<Longrightarrow>
   length t + length xs \<le> maxMemories (config s) \<Longrightarrow>
   db (store_all xs s) = Some (t @ map (stored_row (config s)) xs)
     \<and> config (store_all xs s) = config s \<and> writable (store_all xs s) = writable s"
proof (induction xs arbitrary: s t)
  case Nil
  then show ?case by simp
next
  case (Cons x xs)
  obtain p uuid now where x: "x = (p, uuid, now)"
    by (cases x) auto
  let ?s1 = "snd (store p uuid now s)"
  let ?t1 = "t @ [stored_row (config s) x]"
  from Cons.prems x have fresh: "uuid \<notin> row_id ` set t"
    by auto
  from Cons.prems have fits: "length ?t1 \<le> maxMemories (config s)"
    by simp
  have db1: "db ?s1 = Some ?t1" and c1: "config ?s1 = config s"
    and w1: "writable ?s1 = writable s"
    using store_db [OF Cons.prems(1) fresh Cons.prems(2), of p now] fits x
    by (simp_all add: evict_fits stored_row_def)
  have "db (store_all xs ?s1) = Some (?t1 @ map (stored_row (config ?s1)) xs)
          \<and> config (store_all xs ?s1) = config ?s1
          \<and> writable (store_all xs ?s1) = writable ?s1"
  proof (rule Cons.IH [OF db1])
    show "can_save ?s1"
      using Cons.prems(2) c1 w1 can_save_cong by blast
    show "distinct (map (\<lambda>x. fst (snd x)) xs)"
      using Cons.prems(3) by simp
    show "\<forall>y\<in>set xs. fst (snd y) \<notin> row_id ` set ?t1"
      using Cons.prems(3,4) by (force simp: image_iff)
    show "length ?t1 + length xs \<le> maxMemories (config ?s1)"
      using Cons.prems(5) c1 by simp
  qed
  with c1 w1 x show ?case
    by simp
qed

lemma one_victim:
  assumes "distinct t1" and "distinct t'" and "set t' \<subseteq> set t1" and "length t1 = Suc (length t')"
  shows "\<exists>v. v \<in> set t1 \<and> set t' = set t1 - {v}"
proof -
  have "card (set t1 - set t') = card (set t1) - card (set t')"
    by (rule card_Diff_subset) (simp_all add: assms(3))
  also have "\<dots> = 1"
    using assms by (simp add: distinct_card)
  finally obtain v where v: "set t1 - set t' = {v}"
    by (auto simp: card_1_singleton_iff)
  then have "v \<in> set t1" and "set t' = set t1 - {v}"
    using assms(3) by auto
  then show ?thesis by blast
qed

lemma store_full:
  assumes db: "db s = Some t" and pk: "primary_key t" and ok: "store p uuid now s = (Inr m, s')"
  shows "\<exists>t'. db s' = Some t'
           \<and> length t' = min (length t + 1) (maxMemories (config s))
           \<and> length t' \<le> maxMemories (config s')
           \<and> set t' \<subseteq> set (t @ [inserted_row m])
           \<and> (\<forall>d\<in>set (t @ [inserted_row m]) - set t'. \<forall>k\<in>set t'. evicted_first d k)
           \<and> primary_key t'"
proof -
  from store_success [OF ok] db have fresh: "uuid \<notin> row_id ` set t" and cs: "can_save s"
    by simp_all
  from store_db [OF db fresh cs, of p now] ok
  have m: "m = new_memory p uuid now (config s)"
    and db': "db s' = Some (evict (maxMemories (config s)) (t @ [inserted_row m]))"
    and c': "config s' = config s"
    by simp_all
  let ?t1 = "t @ [inserted_row m]"
  let ?t' = "evict (maxMemories (config s)) ?t1"
  have "row_id (inserted_row m) = uuid"
    by (simp add: m inserted_row_def new_memory_def)
  with pk fresh have pk1: "primary_key ?t1"
    by (simp add: primary_key_insert)
  have "length ?t' = min (length t + 1) (maxMemories (config s))"
    using evict_length [OF pk1] by simp
  moreover have "set ?t' \<subseteq> set ?t1"
    by (rule evict_subset)
  moreover have "\<forall>d\<in>set ?t1 - set ?t'. \<forall>k\<in>set ?t'. evicted_first d k"
    using evict_choice [OF pk1] by (auto simp: rank_key_le)
  moreover have "primary_key ?t'"
    using pk1 by (rule primary_key_evict)
  ultimately show ?thesis
    using db' c' by simp
qed

lemma evicted_first_refl: "evicted_first r r"
  by (simp add: evicted_first_def)

lemma store_overflow:
  assumes db: "db s0 = Some []" and cs: "can_save s0" and n: "maxMemories (config s0) = n"
    and ids: "distinct (map (\<lambda>x. fst (snd x)) xs)" and len: "length xs = n + 1"
  shows "\<exists>t' v. db (store_all xs s0) = Some t' \<and> length t' = n
           \<and> v \<in> set (map (stored_row (config s0)) xs)
           \<and> (\<forall>r\<in>set (map (stored_row (config s0)) xs). evicted_first v r)
           \<and> set t' = set (map (stored_row (config s0)) xs) - {v}"
proof -
  let ?rows = "map (stored_row (config s0)) xs"
  from len obtain ys z where xs: "xs = ys @ [z]"
    by (cases xs rule: rev_cases) auto
  obtain p uuid now where z: "z = (p, uuid, now)"
    by (cases z) auto
  let ?s1 = "store_all ys s0"
  let ?t = "map (stored_row (config s0)) ys"
  have "db ?s1 = Some ([] @ ?t) \<and> config ?s1 = config s0 \<and> writable ?s1 = writable s0"
    using db cs ids len n xs by (intro store_all_fits) simp_all
  then have db1: "db ?s1 = Some ?t" and c1: "config ?s1 = config s0"
    and w1: "writable ?s1 = writable s0"
    by simp_all
  then have cs1: "can_save ?s1"
    using cs can_save_cong by blast
  have "map row_id ?rows = map (\<lambda>x. fst (snd x)) xs"
    by simp
  with ids have pk: "primary_key ?rows"
    by (simp only: primary_key_def)
  have fresh: "uuid \<notin> row_id ` set ?t"
    using ids xs z by (force simp: image_iff)
  have rows: "?t @ [inserted_row (new_memory p uuid now (config ?s1))] = ?rows"
    using xs z c1 by (simp add: stored_row_def)
  have final: "db (store_all xs s0) = Some (evict n ?rows)"
    using store_db(2) [OF db1 fresh cs1, of p now] n c1 rows
    by (simp add: xs z store_all_append)
  have length: "length (evict n ?rows) = n"
    using evict_length [OF pk, of n] len by simp
  have "\<exists>v. v \<in> set ?rows \<and> set (evict n ?rows) = set ?rows - {v}"
  proof (rule one_victim)
    show "distinct ?rows"
      using pk by (rule primary_key_rows)
    show "distinct (evict n ?rows)"
      using pk by (intro primary_key_rows primary_key_evict)
    show "set (evict n ?rows) \<subseteq> set ?rows"
      by (rule evict_subset)
    show "length ?rows = Suc (length (evict n ?rows))"
      using length len by simp
  qed
  then obtain v where v: "v \<in> set ?rows" "set (evict n ?rows) = set ?rows - {v}"
    by blast
  have "\<forall>r\<in>set ?rows. evicted_first v r"
  proof
    fix r assume r: "r \<in> set ?rows"
    show "evicted_first v r"
    proof (cases "r = v")
      case True
      then show ?thesis by (simp add: evicted_first_refl)
    next
      case False
      with r v have "r \<in> set (evict n ?rows)" and "v \<notin> set (evict n ?rows)"
        by auto
      with evict_choice [OF pk v(1)] show ?thesis
        by (simp add: rank_key_le)
    qed
  qed
  with final length v show ?thesis
    by blast
qed

section \<open>Facts about forget\<close>

lemma delete_ids_count: "length (fst (delete_ids ids t)) + snd (delete_ids ids t) = length t"
  using sum_length_filter_compl [of "\<lambda>r. row_id r \<in> set ids" t]
  by (simp add: delete_ids_def)

lemma forget_finish_db: "db (snd (forget_finish res s)) = Some (fst res)"
proof (cases "snd res > 0")
  case False
  then show ?thesis
    by (simp add: forget_finish_def Let_def)
next
  case True
  have "db (snd (markDirty (s\<lparr>db := Some (fst res)\<rparr>))) = Some (fst res)"
    by simp
  with True show ?thesis
    by (cases "markDirty (s\<lparr>db := Some (fst res)\<rparr>)")
       (auto simp: forget_finish_def Let_def split: sum.split)
qed

lemma forget_finish_result:
  "forget_finish res s = (Inr r, s') \<Longrightarrow> r = \<lparr>deleted = snd res\<rparr>"
  by (cases "markDirty (s\<lparr>db := Some (fst res)\<rparr>)")
     (auto simp: forget_finish_def Let_def split: if_splits sum.splits)

lemma forget_finish_ok:
  assumes "can_save s \<or> snd res = 0"
  shows "fst (forget_finish res s) = Inr \<lparr>deleted = snd res\<rparr>"
proof (cases "snd res > 0")
  case False
  then show ?thesis
    by (simp add: forget_finish_def Let_def)
next
  case True
  with assms have "can_save (s\<lparr>db := Some (fst res)\<rparr>)"
    by simp
  then obtain s1 where "markDirty (s\<lparr>db := Some (fst res)\<rparr>) = (Inr (), s1)"
    by (rule markDirty_ok)
  with True show ?thesis
    by (simp add: forget_finish_def Let_def)
qed

text \<open>The rows that a forget call aims at, with their count.\<close>

lemma forget_by_id:
  "db s = Some t \<Longrightarrow> given (memoryId fp) \<Longrightarrow>
   forget fp s = forget_finish (delete_ids [the (memoryId fp)] t) s"
  by (simp add: forget_def)

lemma forget_by_query:
  "db s = Some t \<Longrightarrow> \<not> given (memoryId fp) \<Longrightarrow> given (f_query fp) \<Longrightarrow>
   recall (forget_recall_params (the (f_query fp))) s = (Inr ms, s') \<Longrightarrow>
   forget fp s = forget_finish (delete_ids (map mid ms) t) s'"
  by (cases ms) (simp_all add: forget_def delete_ids_def forget_finish_def)

lemma forget_nothing:
  "db s = Some t \<Longrightarrow> \<not> given (memoryId fp) \<Longrightarrow> \<not> given (f_query fp) \<Longrightarrow>
   forget fp s = (Inr \<lparr>deleted = 0\<rparr>, s)"
  by (simp add: forget_def forget_finish_def)

lemma forget_targets:
  assumes "db s = Some t"
  obtains ids where "forget fp s = forget_finish (delete_ids ids t) s"
proof (cases "given (memoryId fp)")
  case True
  with assms that forget_by_id show ?thesis
    by blast
next
  case False
  show ?thesis
  proof (cases "given (f_query fp)")
    case True
    obtain ms where "recall (forget_recall_params (the (f_query fp))) s = (Inr ms, s)"
      using recall_ready [OF assms] by blast
    from forget_by_query [OF assms False True this] that show ?thesis
      by blast
  next
    case no: False
    have "forget_finish (delete_ids [] t) s = (Inr \<lparr>deleted = 0\<rparr>, s)"
      using assms by (simp add: forget_finish_def delete_ids_def)
    with forget_nothing [OF assms False no] that [of "[]"] show ?thesis
      by simp
  qed
qed

lemma forget_count:
  assumes "db s = Some t" and "forget fp s = (Inr res, s')"
  shows "\<exists>t'. db s' = Some t' \<and> length t' + deleted res = length t"
proof -
  obtain ids where f: "forget fp s = forget_finish (delete_ids ids t) s"
    using assms(1) by (rule forget_targets)
  with assms(2) have "res = \<lparr>deleted = snd (delete_ids ids t)\<rparr>"
    by (simp add: forget_finish_result)
  moreover have "db s' = Some (fst (delete_ids ids t))"
    using forget_finish_db [of "delete_ids ids t" s] f assms(2) by (metis snd_conv)
  ultimately show ?thesis
    by (simp add: delete_ids_count)
qed

lemma forget_returns:
  assumes "db s = Some t" and "can_save s"
  shows "\<exists>res s'. forget fp s = (Inr res, s')"
proof -
  obtain ids where f: "forget fp s = forget_finish (delete_ids ids t) s"
    using assms(1) by (rule forget_targets)
  from forget_finish_ok [of s "delete_ids ids t"] assms(2)
  show ?thesis
    unfolding f by (metis prod.collapse)
qed

lemma mid_memory_of_row [simp]: "mid (memory_of_row r) = row_id r"
  by (simp add: memory_of_row_def)

lemma recall_rows:
  assumes "db s = Some t" and "recall p s = (Inr ms, s')"
  shows "\<exists>rs. ms = map memory_of_row rs \<and> set rs \<subseteq> set t \<and> (distinct t \<longrightarrow> distinct rs)"
proof -
  let ?sel = "select_rows p t"
  let ?keep = "\<lambda>r. \<not> is_noise (noisePatterns (config s)) (memory_of_row r)"
  let ?rs = "slice (effective_limit p) (if filterNoise p \<noteq> Some False then filter ?keep ?sel else ?sel)"
  have "ms = map memory_of_row ?rs"
    using assms by (auto simp: recall_def Let_def slice_map filter_map comp_def)
  moreover have sel: "set ?sel \<subseteq> set t"
    by (auto simp: select_rows_def sql_limit_take order_by_desc_def dest: in_set_takeD)
  then have "set ?rs \<subseteq> set t"
    unfolding slice_take by (auto dest!: in_set_takeD)
  moreover have "distinct t \<longrightarrow> distinct ?rs"
    by (simp add: select_rows_def sql_limit_take slice_take order_by_desc_def)
  ultimately show ?thesis
    by blast
qed

lemma delete_count_rows:
  assumes "primary_key t" and "set rs \<subseteq> set t" and "distinct rs"
  shows "length (filter (\<lambda>r. row_id r \<in> row_id ` set rs) t) = length rs"
proof -
  have "\<And>r. r \<in> set t \<Longrightarrow> row_id r \<in> row_id ` set rs \<longleftrightarrow> r \<in> set rs"
    using assms(1,2) by (auto dest: primary_key_same)
  then have "filter (\<lambda>r. row_id r \<in> row_id ` set rs) t = filter (\<lambda>r. r \<in> set rs) t"
    by (auto intro: filter_cong)
  moreover have "{x. x \<in> set rs} \<inter> set t = set rs"
    using assms(2) by auto
  ultimately show ?thesis
    using primary_key_rows [OF assms(1)] assms(3)
    by (simp add: distinct_length_filter distinct_card)
qed

lemma delete_count_id:
  assumes "primary_key t"
  shows "length (filter (\<lambda>r. row_id r = i) t) = (if i \<in> row_id ` set t then 1 else 0)"
proof (cases "i \<in> row_id ` set t")
  case False
  then have "filter (\<lambda>r. row_id r = i) t = []"
    by (auto simp: filter_empty_conv)
  with False show ?thesis by simp
next
  case True
  then obtain r where r: "r \<in> set t" "row_id r = i"
    by auto
  from delete_count_rows [OF assms, of "[r]"] r show ?thesis
    using True by simp
qed

section \<open>Facts about the invariant of the rows\<close>

lemma wf_save: "all_well_formed s \<Longrightarrow> all_well_formed (snd (save s))"
  by (auto simp: all_well_formed_def persisted_def rows_of_def save_def split: option.splits)

lemma wf_markDirty: "all_well_formed s \<Longrightarrow> all_well_formed (snd (markDirty s))"
proof -
  assume "all_well_formed s"
  then have "all_well_formed (s\<lparr>dirty := True\<rparr>)"
    by (simp add: all_well_formed_def persisted_def)
  then show ?thesis
    by (simp add: markDirty_def Let_def wf_save)
qed

lemma wf_db:
  "all_well_formed s \<Longrightarrow> \<forall>r\<in>set t. well_formed r \<Longrightarrow> all_well_formed (s\<lparr>db := Some t\<rparr>)"
  by (auto simp: all_well_formed_def persisted_def rows_of_def)

lemma wf_rows: "all_well_formed s \<Longrightarrow> db s = Some t \<Longrightarrow> \<forall>r\<in>set t. well_formed r"
  by (auto simp: all_well_formed_def persisted_def rows_of_def)

lemma wf_prune:
  assumes "all_well_formed s"
  shows "all_well_formed (snd (pruneOldMemories s))"
proof (cases "db s")
  case None
  then show ?thesis
    using assms by (simp add: pruneOldMemories_def stats_def)
next
  case (Some t)
  from wf_rows [OF assms Some]
  have "\<forall>r\<in>set (fst (delete_ids ids t)). well_formed r" for ids
    by (simp add: delete_ids_def)
  then have "all_well_formed (snd (markDirty (s\<lparr>db := Some (fst (delete_ids ids t))\<rparr>)))" for ids
    using assms by (intro wf_markDirty wf_db)
  with Some assms show ?thesis
    by (simp add: pruneOldMemories_def stats_def Let_def)
qed

lemma inserted_row_well_formed: "well_formed (inserted_row (new_memory p uuid now c))"
  by (simp add: well_formed_def inserted_row_def new_memory_def)

lemma store_state:
  assumes "db s = Some t" and "uuid \<notin> row_id ` set t"
  shows "snd (store p uuid now s)
           = snd (markDirty (s\<lparr>db := Some (t @ [inserted_row (new_memory p uuid now (config s))])\<rparr>))
         \<or> snd (store p uuid now s)
           = snd (pruneOldMemories (snd (markDirty
               (s\<lparr>db := Some (t @ [inserted_row (new_memory p uuid now (config s))])\<rparr>))))"
proof -
  let ?t1 = "t @ [inserted_row (new_memory p uuid now (config s))]"
  have ins: "insert_row (inserted_row (new_memory p uuid now (config s))) t = Inr ?t1"
    using assms(2) by (simp add: insert_row_def inserted_row_def new_memory_def)
  obtain r s1 where md: "markDirty (s\<lparr>db := Some ?t1\<rparr>) = (r, s1)"
    by (cases "markDirty (s\<lparr>db := Some ?t1\<rparr>)") auto
  obtain r2 s2 where pr: "pruneOldMemories s1 = (r2, s2)"
    by (cases "pruneOldMemories s1") auto
  show ?thesis
    using assms(1) ins md pr
    by (cases r; cases r2) (simp_all add: store_def Let_def)
qed

lemma wf_store:
  assumes "all_well_formed s"
  shows "all_well_formed (snd (store p uuid now s))"
proof (cases "db s")
  case None
  then show ?thesis
    using assms by (simp add: store_def)
next
  case (Some t)
  show ?thesis
  proof (cases "uuid \<in> row_id ` set t")
    case True
    with Some assms show ?thesis
      by (simp add: store_clash)
  next
    case False
    let ?t1 = "t @ [inserted_row (new_memory p uuid now (config s))]"
    let ?s1 = "snd (markDirty (s\<lparr>db := Some ?t1\<rparr>))"
    have "\<forall>r\<in>set ?t1. well_formed r"
      using wf_rows [OF assms Some] by (simp add: inserted_row_well_formed)
    then have one: "all_well_formed ?s1"
      using assms by (intro wf_markDirty wf_db)
    then have two: "all_well_formed (snd (pruneOldMemories ?s1))"
      by (rule wf_prune)
    from store_state [OF Some False, of p now] one two show ?thesis
      by auto
  qed
qed

lemma wf_forget:
  assumes "all_well_formed s"
  shows "all_well_formed (snd (forget fp s))"
proof (cases "db s")
  case None
  then show ?thesis
    using assms by (simp add: forget_def)
next
  case (Some t)
  obtain ids where f: "forget fp s = forget_finish (delete_ids ids t) s"
    using Some by (rule forget_targets)
  let ?res = "delete_ids ids t"
  have "\<forall>r\<in>set (fst ?res). well_formed r"
    using wf_rows [OF assms Some] by (simp add: delete_ids_def)
  then have one: "all_well_formed (s\<lparr>db := Some (fst ?res)\<rparr>)"
    using assms by (rule wf_db [rotated])
  then have two: "all_well_formed (snd (markDirty (s\<lparr>db := Some (fst ?res)\<rparr>)))"
    by (rule wf_markDirty)
  have "snd (forget_finish ?res s) = s\<lparr>db := Some (fst ?res)\<rparr>
      \<or> snd (forget_finish ?res s) = snd (markDirty (s\<lparr>db := Some (fst ?res)\<rparr>))"
    by (cases "markDirty (s\<lparr>db := Some (fst ?res)\<rparr>)")
       (auto simp: forget_finish_def Let_def split: sum.split)
  with one two show ?thesis
    unfolding f by auto
qed

lemma wf_init: "all_well_formed s \<Longrightarrow> all_well_formed (snd (init s))"
proof -
  assume a: "all_well_formed s"
  let ?s0 = "s\<lparr>db := Some (case disk s of None \<Rightarrow> [] | Some t \<Rightarrow> t)\<rparr>"
  have "all_well_formed ?s0"
    using a by (auto simp: all_well_formed_def persisted_def rows_of_def split: option.splits)
  then have one: "all_well_formed (snd (save ?s0))"
    by (rule wf_save)
  then have two: "all_well_formed ((snd (save ?s0))\<lparr>initialized := True\<rparr>)"
    by (simp add: all_well_formed_def persisted_def)
  show ?thesis
    using a one two
    by (cases "save ?s0") (auto simp: init_def split: sum.split)
qed

lemma wf_close: "all_well_formed s \<Longrightarrow> all_well_formed (snd (close s))"
proof -
  assume "all_well_formed s"
  then have one: "all_well_formed (snd (saveIfDirty s))"
    by (simp add: saveIfDirty_def wf_save)
  then have two: "all_well_formed ((snd (saveIfDirty s))\<lparr>db := None, initialized := False\<rparr>)"
    by (auto simp: all_well_formed_def persisted_def rows_of_def)
  show ?thesis
    using one two
    by (cases "saveIfDirty s") (auto simp: close_def split: sum.split)
qed

lemma recall_state: "snd (recall p s) = s"
  by (simp add: recall_def Let_def split: option.split)

lemma stats_state: "snd (stats s) = s"
  by (simp add: stats_def split: option.split)

lemma wf_perform: "all_well_formed s \<Longrightarrow> all_well_formed (perform c s)"
  by (cases c)
     (simp_all add: wf_init wf_store wf_forget wf_close recall_state stats_state)

lemma wf_run: "all_well_formed s \<Longrightarrow> all_well_formed (run cs s)"
  unfolding run_def by (induction cs arbitrary: s) (simp_all add: wf_perform)

lemma wf_constructor: "all_well_formed (constructor c None w)"
  by (simp add: all_well_formed_def persisted_def rows_of_def constructor_def)

section \<open>Facts about recalling a stored memory\<close>





section \<open>The example stores\<close>


lemma quick_test_state [code]:
  "quick_test =
     \<lparr>db = Some
       [\<lparr>row_id = ''m1'', row_text = ''User prefers dark mode'',
       text_lower = ''user prefers dark mode'', row_category = Preference,
       row_importance = 0.9, created_at = ''2026-01-01T10:00:01Z'',
       updated_at = ''2026-01-01T10:00:01Z'', session_key = None, row_metadata = None\<rparr>,
      \<lparr>row_id = ''m2'', row_text = ''User lives in Switzerland'',
       text_lower = ''user lives in switzerland'', row_category = Fact,
       row_importance = 0.8, created_at = ''2026-01-01T10:00:02Z'',
       updated_at = ''2026-01-01T10:00:02Z'', session_key = None, row_metadata = None\<rparr>,
      \<lparr>row_id = ''m3'', row_text = ''Decided to use TypeScript'',
       text_lower = ''decided to use typescript'', row_category = Decision,
       row_importance = 0.7, created_at = ''2026-01-01T10:00:03Z'',
       updated_at = ''2026-01-01T10:00:03Z'', session_key = None, row_metadata = None\<rparr>,
      \<lparr>row_id = ''m4'', row_text = ''ok'', text_lower = ''ok'', row_category = Conversation,
       row_importance = 0.7, created_at = ''2026-01-01T10:00:04Z'',
       updated_at = ''2026-01-01T10:00:04Z'', session_key = None, row_metadata = None\<rparr>,
      \<lparr>row_id = ''m5'', row_text = ''Meeting with Andre'',
       text_lower = ''meeting with andre'', row_category = Conversation,
       row_importance = 0.85, created_at = ''2026-01-01T10:00:05Z'',
       updated_at = ''2026-01-01T10:00:05Z'', session_key = None, row_metadata = None\<rparr>],
      config = DEFAULT_CONFIG, dirty = False, initialized = True,
      disk = Some
       [\<lparr>row_id = ''m1'', row_text = ''User prefers dark mode'',
       text_lower = ''user prefers dark mode'', row_category = Preference,
       row_importance = 0.9, created_at = ''2026-01-01T10:00:01Z'',
       updated_at = ''2026-01-01T10:00:01Z'', session_key = None, row_metadata = None\<rparr>,
      \<lparr>row_id = ''m2'', row_text = ''User lives in Switzerland'',
       text_lower = ''user lives in switzerland'', row_category = Fact,
       row_importance = 0.8, created_at = ''2026-01-01T10:00:02Z'',
       updated_at = ''2026-01-01T10:00:02Z'', session_key = None, row_metadata = None\<rparr>,
      \<lparr>row_id = ''m3'', row_text = ''Decided to use TypeScript'',
       text_lower = ''decided to use typescript'', row_category = Decision,
       row_importance = 0.7, created_at = ''2026-01-01T10:00:03Z'',
       updated_at = ''2026-01-01T10:00:03Z'', session_key = None, row_metadata = None\<rparr>,
      \<lparr>row_id = ''m4'', row_text = ''ok'', text_lower = ''ok'', row_category = Conversation,
       row_importance = 0.7, created_at = ''2026-01-01T10:00:04Z'',
       updated_at = ''2026-01-01T10:00:04Z'', session_key = None, row_metadata = None\<rparr>,
      \<lparr>row_id = ''m5'', row_text = ''Meeting with Andre'',
       text_lower = ''meeting with andre'', row_category = Conversation,
       row_importance = 0.85, created_at = ''2026-01-01T10:00:05Z'',
       updated_at = ''2026-01-01T10:00:05Z'', session_key = None, row_metadata = None\<rparr>],
      writable = True\<rparr>"
  by code_simp

lemma quick_test_db:
  "db quick_test = Some
       [\<lparr>row_id = ''m1'', row_text = ''User prefers dark mode'',
       text_lower = ''user prefers dark mode'', row_category = Preference,
       row_importance = 0.9, created_at = ''2026-01-01T10:00:01Z'',
       updated_at = ''2026-01-01T10:00:01Z'', session_key = None, row_metadata = None\<rparr>,
      \<lparr>row_id = ''m2'', row_text = ''User lives in Switzerland'',
       text_lower = ''user lives in switzerland'', row_category = Fact,
       row_importance = 0.8, created_at = ''2026-01-01T10:00:02Z'',
       updated_at = ''2026-01-01T10:00:02Z'', session_key = None, row_metadata = None\<rparr>,
      \<lparr>row_id = ''m3'', row_text = ''Decided to use TypeScript'',
       text_lower = ''decided to use typescript'', row_category = Decision,
       row_importance = 0.7, created_at = ''2026-01-01T10:00:03Z'',
       updated_at = ''2026-01-01T10:00:03Z'', session_key = None, row_metadata = None\<rparr>,
      \<lparr>row_id = ''m4'', row_text = ''ok'', text_lower = ''ok'', row_category = Conversation,
       row_importance = 0.7, created_at = ''2026-01-01T10:00:04Z'',
       updated_at = ''2026-01-01T10:00:04Z'', session_key = None, row_metadata = None\<rparr>,
      \<lparr>row_id = ''m5'', row_text = ''Meeting with Andre'',
       text_lower = ''meeting with andre'', row_category = Conversation,
       row_importance = 0.85, created_at = ''2026-01-01T10:00:05Z'',
       updated_at = ''2026-01-01T10:00:05Z'', session_key = None, row_metadata = None\<rparr>]"
  by (simp add: quick_test_state)



lemma custom_noise_store_state [code]:
  "custom_noise_store =
     \<lparr>db = Some
       [\<lparr>row_id = ''b1'', row_text = ''book'', text_lower = ''book'', row_category = Fact,
       row_importance = 0.7, created_at = ''2026-02-01T08:00:00Z'',
       updated_at = ''2026-02-01T08:00:00Z'', session_key = None, row_metadata = None\<rparr>],
      config = DEFAULT_CONFIG\<lparr>noisePatterns := [word ''ok'']\<rparr>, dirty = False, initialized = True,
      disk = Some
       [\<lparr>row_id = ''b1'', row_text = ''book'', text_lower = ''book'', row_category = Fact,
       row_importance = 0.7, created_at = ''2026-02-01T08:00:00Z'',
       updated_at = ''2026-02-01T08:00:00Z'', session_key = None, row_metadata = None\<rparr>],
      writable = True\<rparr>"
  by code_simp

lemma custom_noise_store_db:
  "db custom_noise_store = Some
       [\<lparr>row_id = ''b1'', row_text = ''book'', text_lower = ''book'', row_category = Fact,
       row_importance = 0.7, created_at = ''2026-02-01T08:00:00Z'',
       updated_at = ''2026-02-01T08:00:00Z'', session_key = None, row_metadata = None\<rparr>]"
  by (simp add: custom_noise_store_state)



lemma tiny_state [code]:
  "tiny = \<lparr>db = Some [], config = DEFAULT_CONFIG\<lparr>maxMemories := 2\<rparr>, dirty = False,
            initialized = True, disk = Some [],
          writable = True\<rparr>"
  by code_simp

lemma tiny_full_db:
  "db tiny_full = Some
     [\<lparr>row_id = ''e1'', row_text = ''likes tea'', text_lower = ''likes tea'',
       row_category = Preference, row_importance = 0.5,
       created_at = ''2026-04-01T07:00:01Z'', updated_at = ''2026-04-01T07:00:01Z'',
       session_key = None, row_metadata = None\<rparr>,
      \<lparr>row_id = ''e2'', row_text = ''owns a cat'', text_lower = ''owns a cat'',
       row_category = Fact, row_importance = 0.9,
       created_at = ''2026-04-01T07:00:02Z'', updated_at = ''2026-04-01T07:00:02Z'',
       session_key = None, row_metadata = None\<rparr>]"
  by code_simp

lemma ok_store_state [code]:
  "ok_store =
     \<lparr>db = Some
       [\<lparr>row_id = ''k1'', row_text = ''ok'', text_lower = ''ok'', row_category = Conversation,
       row_importance = 0.7, created_at = ''2026-06-01T06:00:00Z'',
       updated_at = ''2026-06-01T06:00:00Z'', session_key = None, row_metadata = None\<rparr>],
      config = DEFAULT_CONFIG, dirty = False, initialized = True,
      disk = Some
       [\<lparr>row_id = ''k1'', row_text = ''ok'', text_lower = ''ok'', row_category = Conversation,
       row_importance = 0.7, created_at = ''2026-06-01T06:00:00Z'',
       updated_at = ''2026-06-01T06:00:00Z'', session_key = None, row_metadata = None\<rparr>],
      writable = True\<rparr>"
  by code_simp

lemma read_only_state [code]:
  "read_only =
     \<lparr>db = Some [], config = DEFAULT_CONFIG\<lparr>autoSaveInterval := 1000\<rparr>, dirty = False,
      initialized = False, disk = None, writable = False\<rparr>"
  by code_simp

section \<open>Which records a recall matches\<close>

text \<open>
  Claim C1, as the code has it. A row passes the WHERE clause of a recall exactly when
  (1) no word of the query survives, or its \<open>text_lower\<close> matches the LIKE pattern
  \<^verbatim>\<open>%word%\<close> for at least one surviving word, and (2) its category is the one asked for,
  when one is asked for, and (3) its \<open>created_at\<close> is within the bounds given. The
  surviving words are pieces of the lowercased query, longer than one character and free of
  whitespace. A word that is contained in a lowercased text matches it, and for a word
  without the wildcards \<^verbatim>\<open>%\<close> and \<^verbatim>\<open>_\<close> matching a lowercased text is the same as
  being contained in it. Every memory that recall returns comes from a row that passes
  the clause.
\<close>

theorem where_clause_like:
  "(where_clause (conditions p) r \<longleftrightarrow>
      (query_words (query p) = []
         \<or> (\<exists>w\<in>set (query_words (query p)). like_match (CHR ''%'' # w @ ''%'') (text_lower r)))
      \<and> (\<forall>c. r_category p = Some c \<longrightarrow> row_category r = c)
      \<and> (\<forall>d. dateFrom p = Some d \<longrightarrow> d \<noteq> [] \<longrightarrow> d \<le> created_at r)
      \<and> (\<forall>d. dateTo p = Some d \<longrightarrow> d \<noteq> [] \<longrightarrow> created_at r \<le> d))
   \<and> (\<forall>w\<in>set (query_words (query p)).
        1 < length w \<and> (\<forall>c\<in>set w. \<not> is_whitespace c) \<and> sublist w (toLowerCase (query p))
        \<and> (sublist w (toLowerCase x) \<longrightarrow> like_match (CHR ''%'' # w @ ''%'') (toLowerCase x))
        \<and> (plain w \<longrightarrow> like_match (CHR ''%'' # w @ ''%'') (toLowerCase x) \<longrightarrow> sublist w (toLowerCase x)))
   \<and> (db s = Some t \<longrightarrow>
        (\<exists>ms. recall p s = (Inr ms, s)
           \<and> set ms \<subseteq> memory_of_row ` {r \<in> set t. where_clause (conditions p) r}))"
proof -
  have clause: "where_clause (conditions p) r \<longleftrightarrow>
      (query_words (query p) = []
         \<or> (\<exists>w\<in>set (query_words (query p)). like_match (CHR ''%'' # w @ ''%'') (text_lower r)))
      \<and> (\<forall>c. r_category p = Some c \<longrightarrow> row_category r = c)
      \<and> (\<forall>d. dateFrom p = Some d \<longrightarrow> d \<noteq> [] \<longrightarrow> d \<le> created_at r)
      \<and> (\<forall>d. dateTo p = Some d \<longrightarrow> d \<noteq> [] \<longrightarrow> created_at r \<le> d)"
    by (rule conditions_hold)
  have words: "\<forall>w\<in>set (query_words (query p)).
        1 < length w \<and> (\<forall>c\<in>set w. \<not> is_whitespace c) \<and> sublist w (toLowerCase (query p))
        \<and> (sublist w (toLowerCase x) \<longrightarrow> like_match (CHR ''%'' # w @ ''%'') (toLowerCase x))
        \<and> (plain w \<longrightarrow> like_match (CHR ''%'' # w @ ''%'') (toLowerCase x) \<longrightarrow> sublist w (toLowerCase x))"
  proof
    fix w assume w: "w \<in> set (query_words (query p))"
    from w have token: "1 < length w \<and> (\<forall>c\<in>set w. \<not> is_whitespace c)"
      by (rule query_words_token)
    from w have sub: "sublist w (toLowerCase (query p))"
      by (rule query_words_sublist)
    have there: "sublist w (toLowerCase x) \<longrightarrow> like_match (CHR ''%'' # w @ ''%'') (toLowerCase x)"
      by (simp add: like_sublist)
    have only_plain: "plain w \<longrightarrow> like_match (CHR ''%'' # w @ ''%'') (toLowerCase x)
                  \<longrightarrow> sublist w (toLowerCase x)"
      using sub by (simp add: like_plain_lower)
    from token sub there only_plain
    show "1 < length w \<and> (\<forall>c\<in>set w. \<not> is_whitespace c) \<and> sublist w (toLowerCase (query p))
        \<and> (sublist w (toLowerCase x) \<longrightarrow> like_match (CHR ''%'' # w @ ''%'') (toLowerCase x))
        \<and> (plain w \<longrightarrow> like_match (CHR ''%'' # w @ ''%'') (toLowerCase x) \<longrightarrow> sublist w (toLowerCase x))"
      by blast
  qed
  have result: "db s = Some t \<longrightarrow>
        (\<exists>ms. recall p s = (Inr ms, s)
           \<and> set ms \<subseteq> memory_of_row ` {r \<in> set t. where_clause (conditions p) r})"
  proof
    assume t: "db s = Some t"
    have "set (select_rows p t) \<subseteq> {r \<in> set t. where_clause (conditions p) r}"
    proof
      fix r assume "r \<in> set (select_rows p t)"
      then have "r \<in> set (order_by_desc (filter (where_clause (conditions p)) t))"
        unfolding select_rows_def sql_limit_take by (rule in_set_takeD)
      then show "r \<in> {r \<in> set t. where_clause (conditions p) r}"
        by (simp add: order_by_desc_def)
    qed
    then have "set (map memory_of_row (select_rows p t))
                 \<subseteq> memory_of_row ` {r \<in> set t. where_clause (conditions p) r}"
      by auto
    moreover have "set (projr (fst (recall p s))) \<subseteq> set (map memory_of_row (select_rows p t))"
      using t by (auto simp: recall_def Let_def dest: in_set_sliceD)
    moreover have "recall p s = (Inr (projr (fst (recall p s))), s)"
      using t by (simp add: recall_def Let_def)
    ultimately show "\<exists>ms. recall p s = (Inr ms, s)
             \<and> set ms \<subseteq> memory_of_row ` {r \<in> set t. where_clause (conditions p) r}"
      by (metis subset_trans)
  qed
  from clause words result show ?thesis
    by (intro conjI)
qed

theorem where_clause_like_witness:
  "query_words ''Likes  ABC'' = [''likes'', ''abc''] \<and> plain ''abc''
   \<and> like_match ''%abc%'' (toLowerCase ''abc'') \<and> sublist ''abc'' (toLowerCase ''abc'')
   \<and> map mid (projr (fst (recall (ask ''Likes  ABC'') wildcard_store))) = [''w1'']"
proof -
  have a: "query_words ''Likes  ABC'' = [''likes'', ''abc'']" by code_simp
  have b: "plain ''abc''" by code_simp
  have c: "sublist ''abc'' (toLowerCase ''abc'')" by code_simp
  have d: "map mid (projr (fst (recall (ask ''Likes  ABC'') wildcard_store))) = [''w1'']"
    by code_simp
  from where_clause_like [of "ask ''Likes  ABC''" _ "''abc''" wildcard_store] a b c d
  show ?thesis
    by (simp add: ask_def)
qed

text \<open>
  Claim C1 as stated fails for a word with a wildcard: the query \<^verbatim>\<open>a_c\<close> has the one word
  \<^verbatim>\<open>a_c\<close>, which the text \<^verbatim>\<open>abc\<close> does not contain, and the recall returns that memory.
\<close>

theorem substring_match_counterexample:
  "query_words ''a_c'' = [''a_c''] \<and> \<not> sublist ''a_c'' (toLowerCase ''abc'')
   \<and> map mtext (projr (fst (recall (ask ''a_c'') wildcard_store))) = [''abc'']"
  by code_simp

section \<open>The order of a result\<close>

text \<open>
  Claim C2. Whatever the parameters of a recall, the memories it returns are in the order
  of importance descending, and those of equal importance in the order of \<open>createdAt\<close>
  descending.
\<close>

theorem recall_ranked:
  "recall p s = (Inr ms, s') \<Longrightarrow> ranked ms"
  by (cases "db s")
     (auto simp: recall_def Let_def fetched_ranked ranked_filter ranked_slice split: if_splits)

theorem recall_ranked_witness:
  "map mid (projr (fst (recall ((ask [])\<lparr>filterNoise := Some False\<rparr>) quick_test)))
     = [''m1'', ''m5'', ''m2'', ''m4'', ''m3'']
   \<and> ranked (projr (fst (recall ((ask [])\<lparr>filterNoise := Some False\<rparr>) quick_test)))"
proof -
  have "map mid (projr (fst (recall ((ask [])\<lparr>filterNoise := Some False\<rparr>) quick_test)))
     = [''m1'', ''m5'', ''m2'', ''m4'', ''m3'']"
    by code_simp
  moreover have "ranked (projr (fst (recall ((ask [])\<lparr>filterNoise := Some False\<rparr>) quick_test)))"
    by (rule recall_ranked [OF recall_ready [OF quick_test_db]])
  ultimately show ?thesis by simp
qed

section \<open>The noise filter\<close>

text \<open>
  Claim C3, as the code has it. Unless \<open>filterNoise\<close> is false, recall drops from the
  fetched rows exactly the memories whose text some configured noise pattern, compiled
  without regard to case, matches somewhere (\<^verbatim>\<open>RegExp.test\<close>), and then keeps what
  \<^verbatim>\<open>slice(0, limit)\<close> keeps of what is left; when \<open>filterNoise\<close> is false it keeps
  that much of the fetched rows and drops nothing. Each default pattern carries its own \<^verbatim>\<open>^\<close> and
  \<^verbatim>\<open>$\<close>, so it matches a text exactly when it matches the whole of it; under the default
  patterns no memory with the text \<^verbatim>\<open>ok\<close> is returned unless \<open>filterNoise\<close> is false.
\<close>

theorem noise_filter:
  "(db s = Some t \<longrightarrow>
      (filterNoise p \<noteq> Some False \<longrightarrow>
         recall p s =
           (Inr (slice (effective_limit p)
              (filter (\<lambda>m. \<not> (\<exists>re\<in>set (noisePatterns (config s)). regex_test re (mtext m)))
                 (map memory_of_row (select_rows p t)))), s))
      \<and> (filterNoise p = Some False \<longrightarrow>
         recall p s = (Inr (slice (effective_limit p) (map memory_of_row (select_rows p t))), s))
      \<and> (filterNoise p \<noteq> Some False \<longrightarrow> noisePatterns (config s) = noisePatterns DEFAULT_CONFIG \<longrightarrow>
           (\<forall>m\<in>set (projr (fst (recall p s))). mtext m \<noteq> ''ok'')))
   \<and> (\<forall>re\<in>set (noisePatterns DEFAULT_CONFIG).
         regex_test re x \<longleftrightarrow> regex_test (whole_string re) x)"
proof -
  have filtered: "filterNoise p \<noteq> Some False \<longrightarrow>
         recall p s =
           (Inr (slice (effective_limit p)
              (filter (\<lambda>m. \<not> (\<exists>re\<in>set (noisePatterns (config s)). regex_test re (mtext m)))
                 (map memory_of_row (select_rows p t)))), s)" if "db s = Some t"
    using that by (simp add: recall_def Let_def is_noise_iff)
  have unfiltered: "filterNoise p = Some False \<longrightarrow>
         recall p s = (Inr (slice (effective_limit p) (map memory_of_row (select_rows p t))), s)"
    if "db s = Some t"
    using that by (simp add: recall_def Let_def)
  have ok: "\<forall>m\<in>set (projr (fst (recall p s))). mtext m \<noteq> ''ok''"
    if "db s = Some t" "filterNoise p \<noteq> Some False"
       "noisePatterns (config s) = noisePatterns DEFAULT_CONFIG"
  proof
    fix m assume "m \<in> set (projr (fst (recall p s)))"
    with that filtered have "\<not> (\<exists>re\<in>set (noisePatterns DEFAULT_CONFIG). regex_test re (mtext m))"
      by (auto dest: in_set_sliceD)
    then have "\<not> regex_test (whole_string (alternatives (map word acknowledgements))) (mtext m)"
      by (simp add: default_patterns)
    with ok_is_noise show "mtext m \<noteq> ''ok''"
      by auto
  qed
  have anchored: "\<forall>re\<in>set (noisePatterns DEFAULT_CONFIG).
         regex_test re x \<longleftrightarrow> regex_test (whole_string re) x"
    by (simp add: default_patterns test_whole_twice)
  from filtered unfiltered ok anchored show ?thesis
    by blast
qed

theorem noise_filter_witness:
  "map mtext (projr (fst (recall (ask ''ok'') quick_test))) = []
   \<and> map mtext (projr (fst (recall ((ask ''ok'')\<lparr>filterNoise := Some False\<rparr>) quick_test))) = [''ok'']
   \<and> ''ok'' \<notin> mtext ` set (projr (fst (recall (ask ''ok'') quick_test)))
   \<and> regex_test (Seq Bol (Seq (Star Space) Eol)) ''  ''
   \<and> regex_test (whole_string (Seq Bol (Seq (Star Space) Eol))) ''  ''"
proof -
  note inst = noise_filter [of quick_test "the (db quick_test)" "ask ''ok''" "''  ''"]
  have a: "map mtext (projr (fst (recall (ask ''ok'') quick_test))) = []"
    by code_simp
  have b: "map mtext (projr (fst (recall ((ask ''ok'')\<lparr>filterNoise := Some False\<rparr>) quick_test))) = [''ok'']"
    by code_simp
  have c: "regex_test (Seq Bol (Seq (Star Space) Eol)) ''  ''"
    by code_simp
  have d: "noisePatterns (config quick_test) = noisePatterns DEFAULT_CONFIG"
    by code_simp
  have e: "filterNoise (ask ''ok'') \<noteq> Some False"
    by (simp add: ask_def)
  have f: "Seq Bol (Seq (Star Space) Eol) \<in> set (noisePatterns DEFAULT_CONFIG)"
    by (simp add: DEFAULT_CONFIG_def)
  have db: "db quick_test = Some (the (db quick_test))"
    by (simp add: quick_test_db)
  note ok = inst [THEN conjunct1, THEN mp, OF db, THEN conjunct2, THEN conjunct2,
      THEN mp, OF e, THEN mp, OF d]
  have g: "''ok'' \<notin> mtext ` set (projr (fst (recall (ask ''ok'') quick_test)))"
  proof
    assume "''ok'' \<in> mtext ` set (projr (fst (recall (ask ''ok'') quick_test)))"
    then obtain m where m: "m \<in> set (projr (fst (recall (ask ''ok'') quick_test)))"
        "''ok'' = mtext m"
      by (rule imageE)
    from ok m(1) have "mtext m \<noteq> ''ok''"
      by (rule bspec)
    with m(2) show False
      by simp
  qed
  from inst [THEN conjunct2, THEN bspec, OF f] c
  have h: "regex_test (whole_string (Seq Bol (Seq (Star Space) Eol))) ''  ''"
    by (rule iffD1)
  from a b g c h show ?thesis
    by (intro conjI)
qed

text \<open>
  Claim C3 as stated fails for a configured pattern without \<^verbatim>\<open>^\<close> and \<^verbatim>\<open>$\<close>: with the
  one noise pattern \<^verbatim>\<open>ok\<close> the memory \<^verbatim>\<open>book\<close> is suppressed, and \<^verbatim>\<open>ok\<close> read as a
  pattern for the whole string does not match \<^verbatim>\<open>book\<close>.
\<close>

theorem whole_string_noise_counterexample:
  "noisePatterns (config custom_noise_store) = [word ''ok'']
   \<and> map mtext (projr (fst (recall ((ask ''book'')\<lparr>filterNoise := Some False\<rparr>) custom_noise_store)))
       = [''book'']
   \<and> map mtext (projr (fst (recall (ask ''book'') custom_noise_store))) = []
   \<and> \<not> regex_test (whole_string (word ''ok'')) ''book''"
  by code_simp

section \<open>The over-fetch\<close>




section \<open>The eviction\<close>

text \<open>
  Claim C5. When a \<^verbatim>\<open>store\<close> call completes on a table that respects its primary key,
  the table holds the old rows and the new one, less the surplus over \<open>maxMemories\<close>:
  its count is the smaller of the old count plus one and \<open>maxMemories\<close>, so never more
  than \<open>maxMemories\<close>, and every row that was removed is less important than every row
  that was kept, or as important and no younger. A \<^verbatim>\<open>forget\<close> call that returns
  has removed what it reports and nothing more, so no eviction follows it. When \<open>n + 1\<close> memories are stored,
  under distinct ids, into an empty store with \<open>maxMemories = n\<close> whose saves succeed, exactly \<open>n\<close> of them are
  present afterwards, and the missing one is first in the order of eviction among all
  \<open>n + 1\<close>.
\<close>

theorem eviction_after_store:
  "(db s = Some t \<and> primary_key t \<and> store p uuid now s = (Inr m, s') \<longrightarrow>
      (\<exists>t'. db s' = Some t'
         \<and> length t' = min (length t + 1) (maxMemories (config s))
         \<and> length t' \<le> maxMemories (config s')
         \<and> set t' \<subseteq> set (t @ [inserted_row m])
         \<and> (\<forall>d\<in>set (t @ [inserted_row m]) - set t'. \<forall>k\<in>set t'. evicted_first d k)
         \<and> primary_key t'))
   \<and> (db s = Some t \<and> forget fp s = (Inr res, s'') \<longrightarrow>
        (\<exists>t''. db s'' = Some t'' \<and> length t'' + deleted res = length t))
   \<and> (db s0 = Some [] \<and> can_save s0 \<and> maxMemories (config s0) = n
        \<and> distinct (map (\<lambda>x. fst (snd x)) xs) \<and> length xs = n + 1 \<longrightarrow>
        (\<exists>t' v. db (store_all xs s0) = Some t' \<and> length t' = n
           \<and> v \<in> set (map (stored_row (config s0)) xs)
           \<and> (\<forall>r\<in>set (map (stored_row (config s0)) xs). evicted_first v r)
           \<and> set t' = set (map (stored_row (config s0)) xs) - {v}))"
  using store_full [of s t p uuid now m s'] forget_count [of s t fp res s'']
    store_overflow [of s0 n xs]
  by blast

theorem eviction_after_store_witness:
  "db tiny = Some [] \<and> can_save tiny \<and> maxMemories (config tiny) = 2
   \<and> distinct (map (\<lambda>x. fst (snd x)) three_memories) \<and> length three_memories = 2 + 1
   \<and> map row_id (the (db (store_all three_memories tiny))) = [''e2'', ''e3'']
   \<and> (\<exists>t' v. db (store_all three_memories tiny) = Some t' \<and> length t' = 2
         \<and> v \<in> set (map (stored_row (config tiny)) three_memories)
         \<and> (\<forall>r\<in>set (map (stored_row (config tiny)) three_memories). evicted_first v r)
         \<and> set t' = set (map (stored_row (config tiny)) three_memories) - {v})
   \<and> primary_key (the (db tiny_full))
   \<and> (\<exists>t'. db (snd (store (memo ''chose Isabelle'' Decision (Some 0.7)) ''e3''
                         ''2026-04-01T07:00:03Z'' tiny_full)) = Some t'
         \<and> length t' = 2 \<and> primary_key t')"
proof -
  let ?p = "memo ''chose Isabelle'' Decision (Some 0.7)"
  let ?u = "''e3''"
  let ?n = "''2026-04-01T07:00:03Z''"
  let ?t = "the (db tiny_full)"
  let ?m = "new_memory ?p ?u ?n (config tiny_full)"
  let ?s' = "snd (store ?p ?u ?n tiny_full)"
  have a: "db tiny = Some []" "can_save tiny" "maxMemories (config tiny) = 2"
    "distinct (map (\<lambda>x. fst (snd x)) three_memories)" "length three_memories = 2 + 1"
    by code_simp+
  have b: "map row_id (the (db (store_all three_memories tiny))) = [''e2'', ''e3'']"
    by code_simp
  have c: "db tiny_full = Some ?t"
    by (simp add: tiny_full_db)
  have d: "primary_key ?t"
    unfolding tiny_full_db by code_simp
  have e: "maxMemories (config tiny_full) = 2"
    by code_simp
  have "?u \<notin> row_id ` set ?t"
    unfolding tiny_full_db by simp
  moreover have "can_save tiny_full"
    by code_simp
  ultimately have "fst (store ?p ?u ?n tiny_full) = Inr ?m"
    using store_db(1) [OF c, of ?u ?p ?n] by blast
  then have f: "store ?p ?u ?n tiny_full = (Inr ?m, ?s')"
    by (metis prod.collapse)
  note inst = eviction_after_store [of tiny_full ?t ?p ?u ?n ?m ?s' _ _ _ tiny 2 three_memories]
  from c d f have "db tiny_full = Some ?t \<and> primary_key ?t \<and> store ?p ?u ?n tiny_full = (Inr ?m, ?s')"
    by simp
  from inst [THEN conjunct1, THEN mp, OF this]
  obtain t' where t': "db ?s' = Some t'"
      "length t' = min (length ?t + 1) (maxMemories (config tiny_full))" "primary_key t'"
    by blast
  have "length ?t = 2"
    by (simp add: tiny_full_db)
  with t'(2) e have "length t' = 2"
    by simp
  with t' have one: "\<exists>t'. db ?s' = Some t' \<and> length t' = 2 \<and> primary_key t'"
    by blast
  from a have "db tiny = Some [] \<and> can_save tiny \<and> maxMemories (config tiny) = 2
     \<and> distinct (map (\<lambda>x. fst (snd x)) three_memories) \<and> length three_memories = 2 + 1"
    by simp
  note three = inst [THEN conjunct2, THEN conjunct2, THEN mp, OF this]
  from a b d one three show ?thesis
    by (intro conjI)
qed

section \<open>Forgetting\<close>

text \<open>
  Claim C6. An identifier or a query counts as given when it is a non-empty string. Let
  a \<^verbatim>\<open>forget\<close> call return. With an identifier given, it has deleted the rows with
  that id, which is one row when the id is present and none otherwise, whether or not a
  query is given too. With no identifier and a query given, it has deleted exactly the
  rows whose ids the recall with that query, limit 100 and \<open>filterNoise = false\<close> returns,
  as many rows as that recall returns memories. With neither, it has deleted nothing and
  left the plugin as it was. In every case \<open>deleted\<close> is the number of rows removed, and
  the total of \<^verbatim>\<open>stats\<close> has gone down by that number. A \<^verbatim>\<open>forget\<close> call on an open
  database returns whenever the save after a change succeeds.
\<close>

theorem forget_deletes:
  "(db s = Some t \<and> forget fp s = (Inr res, s') \<longrightarrow>
     (given (memoryId fp) \<longrightarrow>
        deleted res = length (filter (\<lambda>r. row_id r = the (memoryId fp)) t)
        \<and> db s' = Some (filter (\<lambda>r. row_id r \<noteq> the (memoryId fp)) t)
        \<and> (primary_key t \<longrightarrow>
             deleted res = (if the (memoryId fp) \<in> row_id ` set t then 1 else 0)))
     \<and> (\<not> given (memoryId fp) \<and> given (f_query fp) \<longrightarrow>
          (\<exists>ms. recall \<lparr>query = the (f_query fp), limit = Some 100, r_category = None,
                         dateFrom = None, dateTo = None, filterNoise = Some False\<rparr> s = (Inr ms, s)
             \<and> deleted res = length (filter (\<lambda>r. row_id r \<in> mid ` set ms) t)
             \<and> db s' = Some (filter (\<lambda>r. row_id r \<notin> mid ` set ms) t)
             \<and> (primary_key t \<longrightarrow> deleted res = length ms)))
     \<and> (\<not> given (memoryId fp) \<and> \<not> given (f_query fp) \<longrightarrow> deleted res = 0 \<and> s' = s)
     \<and> (\<exists>t'. db s' = Some t' \<and> length t' + deleted res = length t
           \<and> total (projr (fst (stats s'))) + deleted res = total (projr (fst (stats s)))))
   \<and> (db s = Some t \<and> can_save s \<longrightarrow> (\<exists>res s'. forget fp s = (Inr res, s')))"
  (is "(?called \<longrightarrow> ?deleted) \<and> ?returns")
proof (rule conjI)
  show ?returns
    using forget_returns [of s t fp] by blast
next
  show "?called \<longrightarrow> ?deleted"
  proof (intro impI, elim conjE)
    assume db: "db s = Some t" and ok: "forget fp s = (Inr res, s')"
    let ?q = "\<lparr>query = the (f_query fp), limit = Some 100, r_category = None,
               dateFrom = None, dateTo = None, filterNoise = Some False\<rparr>"
    have finish: "deleted res = snd (delete_ids ids t) \<and> db s' = Some (fst (delete_ids ids t))"
      if "forget fp s = forget_finish (delete_ids ids t) s" for ids
    proof -
      from that ok have f: "forget_finish (delete_ids ids t) s = (Inr res, s')"
        by simp
      from forget_finish_result [OF f] have "deleted res = snd (delete_ids ids t)"
        by simp
      moreover from forget_finish_db [of "delete_ids ids t" s] f
      have "db s' = Some (fst (delete_ids ids t))"
        by simp
      ultimately show ?thesis ..
    qed
    have by_id: "given (memoryId fp) \<longrightarrow>
          deleted res = length (filter (\<lambda>r. row_id r = the (memoryId fp)) t)
          \<and> db s' = Some (filter (\<lambda>r. row_id r \<noteq> the (memoryId fp)) t)
          \<and> (primary_key t \<longrightarrow>
               deleted res = (if the (memoryId fp) \<in> row_id ` set t then 1 else 0))"
    proof
      assume "given (memoryId fp)"
      from finish [OF forget_by_id [OF db this]]
      have "deleted res = length (filter (\<lambda>r. row_id r = the (memoryId fp)) t)"
        and "db s' = Some (filter (\<lambda>r. row_id r \<noteq> the (memoryId fp)) t)"
        by (simp_all add: delete_ids_def)
      then show "deleted res = length (filter (\<lambda>r. row_id r = the (memoryId fp)) t)
          \<and> db s' = Some (filter (\<lambda>r. row_id r \<noteq> the (memoryId fp)) t)
          \<and> (primary_key t \<longrightarrow>
               deleted res = (if the (memoryId fp) \<in> row_id ` set t then 1 else 0))"
        using delete_count_id [of t "the (memoryId fp)"] by simp
    qed
    have by_query: "\<not> given (memoryId fp) \<and> given (f_query fp) \<longrightarrow>
            (\<exists>ms. recall ?q s = (Inr ms, s)
               \<and> deleted res = length (filter (\<lambda>r. row_id r \<in> mid ` set ms) t)
               \<and> db s' = Some (filter (\<lambda>r. row_id r \<notin> mid ` set ms) t)
               \<and> (primary_key t \<longrightarrow> deleted res = length ms))"
    proof
      assume mode: "\<not> given (memoryId fp) \<and> given (f_query fp)"
      obtain ms where ms: "recall ?q s = (Inr ms, s)"
        using recall_ready [OF db] by blast
      from recall_rows [OF db ms] obtain rs where rs: "ms = map memory_of_row rs"
          "set rs \<subseteq> set t" "distinct t \<longrightarrow> distinct rs"
        by blast
      have ids: "mid ` set ms = row_id ` set rs"
        by (simp add: rs(1) image_image)
      have count: "length (filter (\<lambda>r. row_id r \<in> mid ` set ms) t) = length ms" if "primary_key t"
      proof -
        from rs(3) primary_key_rows [OF that] have "distinct rs"
          by simp
        from delete_count_rows [OF that rs(2) this] show ?thesis
          unfolding ids by (simp add: rs(1))
      qed
      from ms have ms': "recall (forget_recall_params (the (f_query fp))) s = (Inr ms, s)"
        by (simp add: forget_recall_params_def)
      from mode finish [OF forget_by_query [OF db _ _ ms']]
      have "deleted res = length (filter (\<lambda>r. row_id r \<in> mid ` set ms) t)"
        and "db s' = Some (filter (\<lambda>r. row_id r \<notin> mid ` set ms) t)"
        by (simp_all add: delete_ids_def)
      with ms count
      show "\<exists>ms. recall ?q s = (Inr ms, s)
               \<and> deleted res = length (filter (\<lambda>r. row_id r \<in> mid ` set ms) t)
               \<and> db s' = Some (filter (\<lambda>r. row_id r \<notin> mid ` set ms) t)
               \<and> (primary_key t \<longrightarrow> deleted res = length ms)"
        by auto
    qed
    have neither: "\<not> given (memoryId fp) \<and> \<not> given (f_query fp) \<longrightarrow> deleted res = 0 \<and> s' = s"
      using forget_nothing [OF db, of fp] ok by auto
    from forget_count [OF db ok] obtain t' where
      t': "db s' = Some t'" "length t' + deleted res = length t"
      by blast
    then have "total (projr (fst (stats s'))) + deleted res = total (projr (fst (stats s)))"
      using db by (simp add: stats_def)
    with t' have count: "\<exists>t'. db s' = Some t' \<and> length t' + deleted res = length t
             \<and> total (projr (fst (stats s'))) + deleted res = total (projr (fst (stats s)))"
      by blast
    show ?deleted
      by (rule conjI [OF by_id conjI [OF by_query conjI [OF neither count]]])
  qed
qed

theorem forget_deletes_witness:
  "given (Some ''Switzerland'') \<and> \<not> given None \<and> \<not> given (Some [])
   \<and> can_save quick_test
   \<and> fst (forget \<lparr>memoryId = None, f_query = Some ''Switzerland''\<rparr> quick_test)
       = Inr \<lparr>deleted = 1\<rparr>
   \<and> map row_id (the (db (snd (forget \<lparr>memoryId = None, f_query = Some ''Switzerland''\<rparr> quick_test))))
       = [''m1'', ''m3'', ''m4'', ''m5'']
   \<and> (\<exists>t'. db (snd (forget \<lparr>memoryId = None, f_query = Some ''Switzerland''\<rparr> quick_test)) = Some t'
         \<and> length t' + 1 = 5)
   \<and> fst (forget \<lparr>memoryId = Some ''m4'', f_query = Some ''Switzerland''\<rparr> quick_test)
       = Inr \<lparr>deleted = 1\<rparr>
   \<and> map row_id (the (db (snd (forget \<lparr>memoryId = Some ''m4'', f_query = Some ''Switzerland''\<rparr> quick_test))))
       = [''m1'', ''m2'', ''m3'', ''m5'']"
proof -
  let ?fp = "\<lparr>memoryId = None, f_query = Some ''Switzerland''\<rparr>"
  let ?t = "the (db quick_test)"
  let ?res = "\<lparr>deleted = 1\<rparr>"
  let ?s' = "snd (forget ?fp quick_test)"
  have a: "given (Some ''Switzerland'')" "\<not> given None" "\<not> given (Some [])"
    by (simp_all add: given_def)
  have cs: "can_save quick_test"
    by code_simp
  have b: "fst (forget ?fp quick_test) = Inr ?res"
    by code_simp
  have c: "map row_id (the (db ?s')) = [''m1'', ''m3'', ''m4'', ''m5'']"
    by code_simp
  have d: "fst (forget \<lparr>memoryId = Some ''m4'', f_query = Some ''Switzerland''\<rparr> quick_test)
       = Inr \<lparr>deleted = 1\<rparr>"
    by code_simp
  have e: "map row_id (the (db (snd (forget \<lparr>memoryId = Some ''m4'', f_query = Some ''Switzerland''\<rparr> quick_test))))
       = [''m1'', ''m2'', ''m3'', ''m5'']"
    by code_simp
  have db: "db quick_test = Some ?t" and len: "length ?t = 5"
    by (simp_all add: quick_test_db)
  from b have ok: "forget ?fp quick_test = (Inr ?res, ?s')"
    by (metis prod.collapse)
  from db ok have "db quick_test = Some ?t \<and> forget ?fp quick_test = (Inr ?res, ?s')"
    by (rule conjI)
  from forget_deletes [of quick_test ?t ?fp ?res ?s', THEN conjunct1, THEN mp, OF this]
  have "\<exists>t'. db ?s' = Some t' \<and> length t' + deleted ?res = length ?t
          \<and> total (projr (fst (stats ?s'))) + deleted ?res = total (projr (fst (stats quick_test)))"
    by (elim conjE)
  then obtain t' where "db ?s' = Some t'" "length t' + deleted ?res = length ?t"
    by blast
  with len have f: "\<exists>t'. db ?s' = Some t' \<and> length t' + 1 = 5"
    by simp
  from a cs b c f d e show ?thesis
    by (intro conjI)
qed

section \<open>Recalling what was stored\<close>




section \<open>The invariant of the rows\<close>

text \<open>
  Claim C8. A row is well formed when its \<open>text_lower\<close> is the lowercase of its text and
  its \<open>updated_at\<close> equals its \<open>created_at\<close>. Every call (init, store, recall, forget,
  stats, close) that starts from a plugin whose rows, in the open database and in the
  file, are all well formed leaves such a plugin; after any run of calls on a plugin
  constructed without a file every row is well formed, whether or not its saves succeed; and the memory that a \<^verbatim>\<open>store\<close>
  call returns has equal timestamps and is inserted as a well-formed row.
\<close>

theorem rows_well_formed:
  "((\<forall>r\<in>persisted s. well_formed r) \<longrightarrow> (\<forall>r\<in>persisted (perform c s). well_formed r))
   \<and> (\<forall>r\<in>persisted (run cs (constructor cfg None w)). well_formed r)
   \<and> (store p uuid now s = (Inr m, s') \<longrightarrow>
        updatedAt m = createdAt m \<and> well_formed (inserted_row m))"
proof -
  have one: "(\<forall>r\<in>persisted s. well_formed r) \<longrightarrow> (\<forall>r\<in>persisted (perform c s). well_formed r)"
    using wf_perform [of s c] by (simp add: all_well_formed_def)
  have all: "\<forall>r\<in>persisted (run cs (constructor cfg None w)). well_formed r"
    using wf_run [OF wf_constructor, of cs cfg w] by (simp add: all_well_formed_def)
  have new: "store p uuid now s = (Inr m, s') \<longrightarrow>
        updatedAt m = createdAt m \<and> well_formed (inserted_row m)"
  proof
    assume ok: "store p uuid now s = (Inr m, s')"
    from store_success [OF ok] obtain t where "db s = Some t" "uuid \<notin> row_id ` set t"
        "can_save s"
      by blast
    from store_db(1) [OF this, of p now] ok have "m = new_memory p uuid now (config s)"
      by simp
    then show "updatedAt m = createdAt m \<and> well_formed (inserted_row m)"
      by (simp add: inserted_row_well_formed) (simp add: new_memory_def)
  qed
  from one all new show ?thesis
    by (intro conjI)
qed

theorem rows_well_formed_witness:
  "all_well_formed quick_test
   \<and> all_well_formed (perform (CallForget \<lparr>memoryId = Some ''m2'', f_query = None\<rparr>) quick_test)
   \<and> all_well_formed (run [CallInit, CallStore (memo ''Likes TEA'' Preference None) ''r1''
                            ''2026-05-01T12:00:00Z'', CallClose] (constructor no_config None True))
   \<and> updatedAt (projr (fst (store (memo ''Likes TEA'' Preference None) ''r1''
                              ''2026-05-01T12:00:00Z'' quick_test)))
       = ''2026-05-01T12:00:00Z''"
proof -
  let ?p = "memo ''Likes TEA'' Preference None"
  let ?u = "''r1''"
  let ?n = "''2026-05-01T12:00:00Z''"
  let ?m = "new_memory ?p ?u ?n (config quick_test)"
  note inst = rows_well_formed [of quick_test "CallForget \<lparr>memoryId = Some ''m2'', f_query = None\<rparr>"
      "[CallInit, CallStore ?p ?u ?n, CallClose]" no_config True ?p ?u ?n ?m
      "snd (store ?p ?u ?n quick_test)"]
  have a: "\<forall>r\<in>persisted quick_test. well_formed r"
    by code_simp
  have "?u \<notin> row_id ` set (the (db quick_test))"
    unfolding quick_test_db by simp
  moreover have "can_save quick_test"
    by code_simp
  moreover have "db quick_test = Some (the (db quick_test))"
    by (simp add: quick_test_db)
  ultimately have fst: "fst (store ?p ?u ?n quick_test) = Inr ?m"
    using store_db(1) [of quick_test "the (db quick_test)" ?u ?p ?n] by blast
  then have b: "store ?p ?u ?n quick_test = (Inr ?m, snd (store ?p ?u ?n quick_test))"
    by (metis prod.collapse)
  from inst [THEN conjunct2, THEN conjunct2, THEN mp, OF b] fst
  have c: "updatedAt (projr (fst (store ?p ?u ?n quick_test))) = ?n"
    by (simp add: new_memory_def)
  from a inst [THEN conjunct1, THEN mp, OF a] inst [THEN conjunct2, THEN conjunct1] c
  show ?thesis
    unfolding all_well_formed_def by (intro conjI)
qed

section \<open>Operations outside the Ready state\<close>

text \<open>
  Claim C9, as the code has it. While the plugin holds no open database, \<open>store\<close>,
  \<open>recall\<close>, \<open>forget\<close> and \<open>stats\<close> each fail with the error "not initialized" and
  leave the plugin as it was. A plugin that has just been constructed holds no open
  database, and neither does a plugin after a \<^verbatim>\<open>close\<close> that completed.
\<close>

theorem uninitialized_operations_fail:
  "(db s = None \<longrightarrow>
      store sp uuid now s = (Inl NotInitialized, s) \<and>
      recall rp s = (Inl NotInitialized, s) \<and>
      forget fp s = (Inl NotInitialized, s) \<and>
      stats s = (Inl NotInitialized, s)) \<and>
   db (constructor c file w) = None \<and>
   (fst (close s') = Inr () \<longrightarrow> db (snd (close s')) = None)"
proof -
  have closed: "fst (close s') = Inr () \<longrightarrow> db (snd (close s')) = None"
    by (cases "saveIfDirty s'") (auto simp: close_def split: sum.splits)
  then show ?thesis
    by (simp add: store_def recall_def forget_def stats_def constructor_def)
qed

theorem uninitialized_operations_fail_witness:
  "fst (close fresh) = Inr () \<and> db (snd (close fresh)) = None \<and>
   store (memo ''late'' Fact None) ''m6'' ''2026-01-02T00:00:00Z'' (snd (close fresh))
     = (Inl NotInitialized, snd (close fresh)) \<and>
   recall (ask ''dark'') (snd (close fresh)) = (Inl NotInitialized, snd (close fresh)) \<and>
   forget \<lparr>memoryId = Some ''m1'', f_query = None\<rparr> (snd (close fresh))
     = (Inl NotInitialized, snd (close fresh)) \<and>
   stats (snd (close fresh)) = (Inl NotInitialized, snd (close fresh))"
proof -
  have finished: "fst (close fresh) = Inr ()"
    by code_simp
  note inst = uninitialized_operations_fail [of "snd (close fresh)" _ _ _ _ _ _ _ _ fresh]
  from inst [THEN conjunct2, THEN conjunct2, THEN mp, OF finished]
  have closed: "db (snd (close fresh)) = None" .
  from inst [THEN conjunct1, THEN mp, OF closed] finished closed show ?thesis
    by (intro conjI) simp_all
qed

text \<open>
  Claim C9 as stated fails after an \<^verbatim>\<open>init\<close> that did not succeed: \<^verbatim>\<open>init\<close> opens
  the database before it saves it, so when the file cannot be written \<^verbatim>\<open>init\<close> fails
  with the database open and the plugin not initialized, and then \<^verbatim>\<open>recall\<close> and
  \<^verbatim>\<open>store\<close> return results.
\<close>

theorem operations_after_failed_init:
  "fst (init (constructor (no_config\<lparr>c_autoSaveInterval := Some 1000\<rparr>) None False))
     = Inl StorageIOFailure
   \<and> read_only = snd (init (constructor (no_config\<lparr>c_autoSaveInterval := Some 1000\<rparr>) None False))
   \<and> initialized read_only = False
   \<and> fst (recall (ask []) read_only) = Inr []
   \<and> fst (store (memo ''abc'' Fact None) ''x1'' ''2026-07-01T00:00:00Z'' read_only)
       = Inr \<lparr>mid = ''x1'', mtext = ''abc'', category = Fact, importance = 0.7,
              createdAt = ''2026-07-01T00:00:00Z'', updatedAt = ''2026-07-01T00:00:00Z'',
              sessionKey = None, metadata = None\<rparr>
   \<and> map row_id (the (db (snd (store (memo ''abc'' Fact None) ''x1'' ''2026-07-01T00:00:00Z''
                                  read_only)))) = [''x1'']"
proof -
  have "fst (init (constructor (no_config\<lparr>c_autoSaveInterval := Some 1000\<rparr>) None False))
     = Inl StorageIOFailure"
    by code_simp
  moreover have "read_only
      = snd (init (constructor (no_config\<lparr>c_autoSaveInterval := Some 1000\<rparr>) None False))"
    by (rule read_only_def)
  moreover have "initialized read_only = False"
    by code_simp
  moreover have "fst (recall (ask []) read_only) = Inr []"
    by code_simp
  moreover have "fst (store (memo ''abc'' Fact None) ''x1'' ''2026-07-01T00:00:00Z'' read_only)
       = Inr \<lparr>mid = ''x1'', mtext = ''abc'', category = Fact, importance = 0.7,
              createdAt = ''2026-07-01T00:00:00Z'', updatedAt = ''2026-07-01T00:00:00Z'',
              sessionKey = None, metadata = None\<rparr>"
    by code_simp
  moreover have "map row_id (the (db (snd (store (memo ''abc'' Fact None) ''x1''
      ''2026-07-01T00:00:00Z'' read_only)))) = [''x1'']"
    by code_simp
  ultimately show ?thesis
    by (intro conjI)
qed

section \<open>The limit of a recall\<close>

text \<open>
  Claim C10. A recall with the limit 0 is the recall with the limit 5, and so is a
  recall with no limit: the limit in force is 5 in both cases.
\<close>

theorem zero_limit_is_default:
  "effective_limit (p\<lparr>limit := Some 0\<rparr>) = 5 \<and> effective_limit (p\<lparr>limit := None\<rparr>) = 5 \<and>
   recall (p\<lparr>limit := Some 0\<rparr>) s = recall (p\<lparr>limit := Some 5\<rparr>) s \<and>
   recall (p\<lparr>limit := None\<rparr>) s = recall (p\<lparr>limit := Some 5\<rparr>) s"
  by (simp add: effective_limit_def recall_cong conditions_limit)

theorem zero_limit_is_default_witness:
  "map mid (projr (fst (recall ((ask [])\<lparr>limit := Some 0\<rparr>) quick_test)))
     = [''m1'', ''m5'', ''m2'', ''m3'']"
proof -
  have "map mid (projr (fst (recall ((ask [])\<lparr>limit := Some 5\<rparr>) quick_test)))
          = [''m1'', ''m5'', ''m2'', ''m3'']"
    by code_simp
  with zero_limit_is_default [of "ask []" quick_test] show ?thesis
    by simp
qed

end
